(* ===== verification/Prelude.thy ===== *)
theory Prelude
  imports Main "HOL-Library.Word"
begin

text \<open>
  The vocabulary every component shares: machine bytes, the outcome of an asynchronous
  Rust function, the sequencing that \<open>.await?\<close> stands for, big-endian integers,
  \<open>slice::chunks\<close>, and the collection of simplification rules that runs straight-line
  code of this kind.
\<close>

unbundle bit_operations_syntax

section \<open>Machine types\<close>

type_synonym u8 = "8 word"
type_synonym bytes = "u8 list"

text \<open>
  A Rust \<open>char\<close> is a Unicode scalar value and a Rust \<open>String\<close> a sequence of them; a
  \<open>usize\<close> that holds a length or a configured bound is a natural number.
\<close>

type_synonym rchar = nat
type_synonym rstring = "rchar list"

text \<open>\<open>byte n\<close> is the cast \<open>n as u8\<close>, which keeps the low eight bits.\<close>

definition byte :: "nat \<Rightarrow> u8" where
  "byte n = word_of_nat n"

lemma unat_byte: "unat (byte n) = n mod 256"
  by (simp add: byte_def unat_of_nat)

lemma unat_byte_less [simp]: "n < 256 \<Longrightarrow> unat (byte n) = n"
  by (simp add: unat_byte)

lemma byte_unat [simp]: "byte (unat b) = b"
  by (simp add: byte_def)

lemma unat_u8_less [simp]: "unat (b :: u8) < 256"
  using unsigned_less [of b] by simp

text \<open>Masking a byte, read as arithmetic on its value.\<close>

lemma and_power_eq_0: "(b :: u8) AND 2 ^ n = 0 \<longleftrightarrow> even (unat b div 2 ^ n)"
proof -
  have "bit b n \<longleftrightarrow> odd (unat b div 2 ^ n)"
    using bit_unsigned_iff [where 'a = nat, of b n] by (simp add: bit_iff_odd [of "unat b"])
  then show ?thesis by (simp add: and_exp_eq_0_iff_not_bit)
qed

lemma and_mask_unat: "unat ((b :: u8) AND mask n) = unat b mod 2 ^ n"
  using unsigned_take_bit_eq [where 'a = nat, of n b] by (simp only: take_bit_eq_mask [symmetric] take_bit_eq_mod [where 'a = nat, symmetric])

section \<open>Filtered lists\<close>

lemma filter_append_split:
  "filter P xs = ys @ zs \<Longrightarrow> \<exists>us vs. xs = us @ vs \<and> filter P us = ys \<and> filter P vs = zs"
proof (induction xs arbitrary: ys)
  case Nil
  then show ?case by simp
next
  case (Cons x xs)
  show ?case
  proof (cases "P x \<and> ys = []")
    case True
    with Cons.prems show ?thesis by (intro exI [of _ "[]"] exI [of _ "x # xs"]) simp
  next
    case False
    with Cons.prems have "filter P xs = (if P x then tl ys else ys) @ zs" "P x \<longrightarrow> ys = x # tl ys"
      by (cases ys; auto split: if_splits)+
    from Cons.IH [OF this(1)] this(2) obtain us vs where
      "xs = us @ vs" "filter P (x # us) = ys" "filter P vs = zs" by auto
    then show ?thesis by (intro exI [of _ "x # us"] exI [of _ vs]) simp
  qed
qed

section \<open>Outcomes of asynchronous code\<close>

text \<open>
  Awaiting a future ends in one of three ways: it returns its output, it never becomes
  ready, or the task panics. Most functions of the crate output a \<open>Result<T, E>\<close>, here
  the sum \<open>'e + 'a\<close>. State the code mutates is threaded through explicitly.
\<close>

datatype 'a outcome = Returns 'a | Hangs | Panics

type_synonym ('s, 'e, 'a) async = "'s \<Rightarrow> ('e + 'a) outcome \<times> 's"

definition ok :: "'a \<Rightarrow> ('s, 'e, 'a) async" where
  "ok x s = (Returns (Inr x), s)"

definition err :: "'e \<Rightarrow> ('s, 'e, 'a) async" where
  "err e s = (Returns (Inl e), s)"

definition panic :: "('s, 'e, 'a) async" where
  "panic s = (Panics, s)"

definition hang :: "('s, 'e, 'a) async" where
  "hang s = (Hangs, s)"

text \<open>\<open>await m f\<close> is \<open>let x = m.await?; f(x)\<close>: an error of \<open>m\<close> is returned at once.\<close>

definition await :: "('s, 'e, 'a) async \<Rightarrow> ('a \<Rightarrow> ('s, 'e, 'b) async) \<Rightarrow> ('s, 'e, 'b) async" where
  "await m f s =
     (case fst (m s) of
        Returns (Inr x) \<Rightarrow> f x (snd (m s))
      | Returns (Inl e) \<Rightarrow> (Returns (Inl e), snd (m s))
      | Hangs \<Rightarrow> (Hangs, snd (m s))
      | Panics \<Rightarrow> (Panics, snd (m s)))"

text \<open>\<open>map_err\<close> is the conversion \<open>From::from\<close> that \<open>?\<close> applies to an error.\<close>

definition map_err :: "('e \<Rightarrow> 'f) \<Rightarrow> ('s, 'e, 'a) async \<Rightarrow> ('s, 'f, 'a) async" where
  "map_err g m s =
     (case fst (m s) of
        Returns (Inr x) \<Rightarrow> (Returns (Inr x), snd (m s))
      | Returns (Inl e) \<Rightarrow> (Returns (Inl (g e)), snd (m s))
      | Hangs \<Rightarrow> (Hangs, snd (m s))
      | Panics \<Rightarrow> (Panics, snd (m s)))"

text \<open>A synchronous \<open>Result\<close> inside asynchronous code, and an early \<open>return Err(e)\<close>.\<close>

definition of_result :: "'e + 'a \<Rightarrow> ('s, 'e, 'a) async" where
  "of_result r s = (Returns r, s)"

definition ensure :: "bool \<Rightarrow> 'e \<Rightarrow> ('s, 'e, unit) async" where
  "ensure c e = (if c then ok () else err e)"

text \<open>
  Methods of a struct run on the pair of the struct and the world behind its handles
  (socket, channel, random source). \<open>io\<close> runs an operation on the world alone.
\<close>

definition io :: "('w, 'e, 'a) async \<Rightarrow> ('r \<times> 'w, 'e, 'a) async" where
  "io m s = (fst (m (snd s)), (fst s, snd (m (snd s))))"

definition get_self :: "('r \<times> 'w, 'e, 'r) async" where
  "get_self s = (Returns (Inr (fst s)), s)"

definition put_self :: "'r \<Rightarrow> ('r \<times> 'w, 'e, unit) async" where
  "put_self r s = (Returns (Inr ()), (r, snd s))"

text \<open>A loop that does not end (\<open>None\<close>) never becomes ready.\<close>

definition or_hang :: "('s \<Rightarrow> (('e + 'a) outcome \<times> 's) option) \<Rightarrow> ('s, 'e, 'a) async" where
  "or_hang m s = (case m s of Some r \<Rightarrow> r | None \<Rightarrow> (Hangs, s))"

text \<open>The same as code equations that run every step once.\<close>

lemma await_code [code]:
  "await m f s =
     (case m s of
        (Returns (Inr x), s') \<Rightarrow> f x s'
      | (Returns (Inl e), s') \<Rightarrow> (Returns (Inl e), s')
      | (Hangs, s') \<Rightarrow> (Hangs, s')
      | (Panics, s') \<Rightarrow> (Panics, s'))"
  by (simp add: await_def split: prod.split outcome.split sum.split)

lemma map_err_code [code]:
  "map_err g m s =
     (case m s of
        (Returns (Inr x), s') \<Rightarrow> (Returns (Inr x), s')
      | (Returns (Inl e), s') \<Rightarrow> (Returns (Inl (g e)), s')
      | (Hangs, s') \<Rightarrow> (Hangs, s')
      | (Panics, s') \<Rightarrow> (Panics, s'))"
  by (simp add: map_err_def split: prod.split outcome.split sum.split)

lemma io_code [code]: "io m s = (case s of (r, w) \<Rightarrow> case m w of (x, w') \<Rightarrow> (x, (r, w')))"
  by (simp add: io_def split: prod.split)

text \<open>\<open>?\<close> on a step whose outcome is known: the rules that run straight-line code.\<close>

named_theorems run "outcomes of asynchronous code, as rewrite rules"

lemma await_ok [run]: "fst (m s) = Returns (Inr x) \<Longrightarrow> await m f s = f x (snd (m s))"
  by (simp add: await_def)

lemma await_err [run]:
  "fst (m s) = Returns (Inl e) \<Longrightarrow> await m f s = (Returns (Inl e), snd (m s))"
  by (simp add: await_def)

lemma await_hangs [run]: "fst (m s) = Hangs \<Longrightarrow> await m f s = (Hangs, snd (m s))"
  by (simp add: await_def)

lemma await_panics [run]: "fst (m s) = Panics \<Longrightarrow> await m f s = (Panics, snd (m s))"
  by (simp add: await_def)

lemma map_err_ok [run]:
  "fst (m s) = Returns (Inr x) \<Longrightarrow> map_err g m s = (Returns (Inr x), snd (m s))"
  by (simp add: map_err_def)

lemma map_err_err [run]:
  "fst (m s) = Returns (Inl e) \<Longrightarrow> map_err g m s = (Returns (Inl (g e)), snd (m s))"
  by (simp add: map_err_def)

lemma snd_map_err [run]: "snd (map_err g m s) = snd (m s)"
  by (simp add: map_err_def split: outcome.split sum.split)

declare ok_def [run] err_def [run] panic_def [run] hang_def [run] of_result_def [run]
  io_def [run] get_self_def [run] put_self_def [run]

lemma ensure_run [run]:
  "ensure c e s = (if c then (Returns (Inr ()), s) else (Returns (Inl e), s))"
  by (simp add: ensure_def ok_def err_def)

text \<open>
  The other direction, for code known to have returned: the collection \<open>returned\<close> takes a
  returned value or error back to the steps that produced it.
\<close>

named_theorems returned "what the steps did, given what the code returned"

lemma await_Inr_iff [returned]:
  "await m f s = (Returns (Inr y), s') \<longleftrightarrow>
     (\<exists>x s1. m s = (Returns (Inr x), s1) \<and> f x s1 = (Returns (Inr y), s'))"
  by (cases "m s") (auto simp: await_def split: outcome.splits sum.splits)

lemma await_Inl_iff [returned]:
  "await m f s = (Returns (Inl e), s') \<longleftrightarrow>
     m s = (Returns (Inl e), s')
     \<or> (\<exists>x s1. m s = (Returns (Inr x), s1) \<and> f x s1 = (Returns (Inl e), s'))"
  by (cases "m s") (auto simp: await_def split: outcome.splits sum.splits)

lemma map_err_Inr_iff [returned]:
  "map_err g m s = (Returns (Inr x), s') \<longleftrightarrow> m s = (Returns (Inr x), s')"
  by (cases "m s") (auto simp: map_err_def split: outcome.splits sum.splits)

lemma map_err_Inl_iff [returned]:
  "map_err g m s = (Returns (Inl e), s') \<longleftrightarrow> (\<exists>e0. m s = (Returns (Inl e0), s') \<and> e = g e0)"
  by (cases "m s") (auto simp: map_err_def split: outcome.splits sum.splits)

lemma io_iff [returned]: "io m s = (r, s') \<longleftrightarrow> m (snd s) = (r, snd s') \<and> fst s' = fst s"
  by (cases s; cases s'; cases "m (snd s)") (auto simp: io_def)

declare ok_def [returned] err_def [returned] of_result_def [returned] get_self_def [returned]
  put_self_def [returned]

lemma ensure_iff [returned]:
  "ensure c e s = (Returns (Inr x), s') \<longleftrightarrow> c \<and> s' = s"
  "ensure c e s = (Returns (Inl e'), s') \<longleftrightarrow> \<not> c \<and> e' = e \<and> s' = s"
  by (auto simp: ensure_def ok_def err_def)

text \<open>
  \<open>preserves P m\<close>: however \<open>m\<close> ends, \<open>P\<close> still holds. The collection \<open>preserved\<close> takes the
  claim through the code.
\<close>

definition preserves :: "('s \<Rightarrow> bool) \<Rightarrow> ('s, 'e, 'a) async \<Rightarrow> bool" where
  "preserves P m \<longleftrightarrow> (\<forall>s. P s \<longrightarrow> P (snd (m s)))"

named_theorems preserved "rules for preserves"

lemma preservesD: "preserves P m \<Longrightarrow> P s \<Longrightarrow> P (snd (m s))"
  by (simp add: preserves_def)

lemma preserves_await [preserved]:
  "preserves P m \<Longrightarrow> (\<And>x. preserves P (f x)) \<Longrightarrow> preserves P (await m f)"
  by (auto simp: preserves_def await_def split: outcome.split sum.split)

lemma preserves_map_err [preserved]: "preserves P m \<Longrightarrow> preserves P (map_err g m)"
  by (simp add: preserves_def snd_map_err)

lemma preserves_pure [preserved]:
  "preserves P (ok x)" "preserves P (err e)" "preserves P (of_result r)" "preserves P (ensure c e)"
  by (simp_all add: preserves_def run)

lemma preserves_get_self [preserved]: "preserves P get_self"
  by (simp add: preserves_def get_self_def)

lemma preserves_if [preserved]:
  "preserves P m \<Longrightarrow> preserves P m' \<Longrightarrow> preserves P (if c then m else m')"
  by simp

lemma preserves_io [preserved]:
  "(\<And>r. preserves (\<lambda>w. P (r, w)) m) \<Longrightarrow> preserves P (io m)"
  by (auto simp: preserves_def io_def)

section \<open>Big-endian integers\<close>

text \<open>
  \<open>be_bytes k n\<close> is \<open>to_be_bytes\<close> of the \<open>k\<close>-byte unsigned integer \<open>n\<close>, most significant
  byte first; \<open>be_value\<close> is \<open>from_be_bytes\<close>.
\<close>

fun be_bytes :: "nat \<Rightarrow> nat \<Rightarrow> bytes" where
  "be_bytes 0 n = []"
| "be_bytes (Suc k) n = be_bytes k (n div 256) @ [byte n]"

definition be_value :: "bytes \<Rightarrow> nat" where
  "be_value bs = foldl (\<lambda>acc b. acc * 256 + unat b) 0 bs"

lemma length_be_bytes [simp]: "length (be_bytes k n) = k"
  by (induction k n rule: be_bytes.induct) auto

lemma be_value_snoc [simp]: "be_value (bs @ [b]) = be_value bs * 256 + unat b"
  by (simp add: be_value_def)

lemma be_value_Nil [simp]: "be_value [] = 0"
  by (simp add: be_value_def)

theorem be_value_be_bytes: "be_value (be_bytes k n) = n mod 256 ^ k"
proof (induction k n rule: be_bytes.induct)
  case (1 n)
  then show ?case by simp
next
  case (2 k n)
  have "n mod 256 ^ Suc k = 256 * (n div 256 mod 256 ^ k) + n mod 256"
    by (simp add: mod_mult2_eq)
  with 2 show ?case by (simp add: unat_byte)
qed

lemma be_value_be_bytes_less: "n < 256 ^ k \<Longrightarrow> be_value (be_bytes k n) = n"
  by (simp add: be_value_be_bytes)

section \<open>Chunks of a slice\<close>

text \<open>
  \<open>chunks n xs\<close> is the sequence \<open>xs.chunks(n)\<close> yields: consecutive pieces of length \<open>n\<close>, the
  last one possibly shorter, none for an empty slice. \<open>chunks(0)\<close> panics in Rust; callers
  model that branch themselves and the equation for \<open>0\<close> only makes the function total.
\<close>

function chunks :: "nat \<Rightarrow> 'a list \<Rightarrow> 'a list list" where
  "chunks n xs = (if n = 0 \<or> xs = [] then [] else take n xs # chunks n (drop n xs))"
  by pat_completeness auto
termination
  by (relation "measure (\<lambda>(n, xs). length xs)") auto

declare chunks.simps [simp del]

lemma chunks_Nil [simp]: "chunks n [] = []"
  by (simp add: chunks.simps)

lemma chunks_Cons:
  "0 < n \<Longrightarrow> xs \<noteq> [] \<Longrightarrow> chunks n xs = take n xs # chunks n (drop n xs)"
  by (simp add: chunks.simps)

lemma concat_chunks: "0 < n \<Longrightarrow> concat (chunks n xs) = xs"
proof (induction n xs rule: chunks.induct)
  case (1 n xs)
  then show ?case by (cases "xs = []") (simp_all add: chunks_Cons)
qed

lemma chunks_eq_Nil_iff: "0 < n \<Longrightarrow> chunks n xs = [] \<longleftrightarrow> xs = []"
  by (cases "xs = []") (simp_all add: chunks_Cons)

lemma chunks_length: "c \<in> set (chunks n xs) \<Longrightarrow> 0 < length c \<and> length c \<le> n"
proof (induction n xs rule: chunks.induct)
  case (1 n xs)
  show ?case
  proof (cases "n = 0 \<or> xs = []")
    case True
    with "1.prems" show ?thesis by (simp add: chunks.simps)
  next
    case False
    with "1.prems" have "c = take n xs \<or> c \<in> set (chunks n (drop n xs))"
      by (simp add: chunks_Cons)
    with "1.IH" False show ?thesis by auto
  qed
qed

lemma chunks_single:
  assumes "xs \<noteq> []" "length xs \<le> n"
  shows "chunks n xs = [xs]"
proof -
  from assms have "0 < n" by (cases xs) auto
  with assms show ?thesis by (simp add: chunks_Cons [of n xs])
qed

end
