(* ===== verification/Utf8.thy ===== *)
theory Utf8
  imports Prelude
begin

text \<open>
  \<open>String::from_utf8\<close> and \<open>str::as_bytes\<close> of the standard library. A \<open>String\<close> is a list of
  Unicode scalar values; \<open>encode_utf8\<close> writes it as bytes and \<open>decode_utf8\<close> accepts exactly
  the well-formed sequences (no overlong forms, no surrogates, nothing above U+10FFFF).
  The two are inverse to each other, which is what lets a text message cross the wire.
\<close>

section \<open>Scalar values and their encoding\<close>

definition is_scalar :: "rchar \<Rightarrow> bool" where
  "is_scalar c \<longleftrightarrow> c < 0xD800 \<or> 0xE000 \<le> c \<and> c \<le> 0x10FFFF"

definition valid_string :: "rstring \<Rightarrow> bool" where
  "valid_string s \<longleftrightarrow> list_all is_scalar s"

lemma valid_string_simps [simp]:
  "valid_string []"
  "valid_string (c # s) \<longleftrightarrow> is_scalar c \<and> valid_string s"
  "valid_string (s @ t) \<longleftrightarrow> valid_string s \<and> valid_string t"
  by (simp_all add: valid_string_def)

definition encode_char :: "rchar \<Rightarrow> bytes" where
  "encode_char c =
     (if c < 0x80 then [byte c]
      else if c < 0x800 then [byte (0xC0 + c div 64), byte (0x80 + c mod 64)]
      else if c < 0x10000 then
        [byte (0xE0 + c div 4096), byte (0x80 + c div 64 mod 64),
         byte (0x80 + c mod 64)]
      else
        [byte (0xF0 + c div 262144), byte (0x80 + c div 4096 mod 64),
         byte (0x80 + c div 64 mod 64), byte (0x80 + c mod 64)])"

definition encode_utf8 :: "rstring \<Rightarrow> bytes" where
  "encode_utf8 s = concat (map encode_char s)"

lemma encode_utf8_simps [simp]:
  "encode_utf8 [] = []"
  "encode_utf8 (c # s) = encode_char c @ encode_utf8 s"
  "encode_utf8 (s @ t) = encode_utf8 s @ encode_utf8 t"
  by (simp_all add: encode_utf8_def)

section \<open>Decoding\<close>

definition cont :: "u8 \<Rightarrow> bool" where
  "cont b \<longleftrightarrow> 0x80 \<le> unat b \<and> unat b \<le> 0xBF"

text \<open>The second byte of a three- and of a four-byte sequence, by the first byte.\<close>

definition second3 :: "nat \<Rightarrow> nat \<Rightarrow> bool" where
  "second3 x y \<longleftrightarrow>
     (if x = 0xE0 then 0xA0 \<le> y \<and> y \<le> 0xBF
      else if x = 0xED then 0x80 \<le> y \<and> y \<le> 0x9F
      else 0x80 \<le> y \<and> y \<le> 0xBF)"

definition second4 :: "nat \<Rightarrow> nat \<Rightarrow> bool" where
  "second4 x y \<longleftrightarrow>
     (if x = 0xF0 then 0x90 \<le> y \<and> y \<le> 0xBF
      else if x = 0xF4 then 0x80 \<le> y \<and> y \<le> 0x8F
      else 0x80 \<le> y \<and> y \<le> 0xBF)"

text \<open>One scalar value from the front of the input, with the bytes that follow it.\<close>

definition decode_char :: "bytes \<Rightarrow> (rchar \<times> bytes) option" where
  "decode_char bs =
     (case bs of
        [] \<Rightarrow> None
      | b0 # r0 \<Rightarrow>
         (if unat b0 < 0x80 then Some (unat b0, r0)
          else if 0xC2 \<le> unat b0 \<and> unat b0 \<le> 0xDF then
            (case r0 of
               b1 # r \<Rightarrow>
                 if cont b1 then Some ((unat b0 - 0xC0) * 64 + (unat b1 - 0x80), r) else None
             | _ \<Rightarrow> None)
          else if 0xE0 \<le> unat b0 \<and> unat b0 \<le> 0xEF then
            (case r0 of
               b1 # b2 # r \<Rightarrow>
                 if second3 (unat b0) (unat b1) \<and> cont b2
                 then Some ((unat b0 - 0xE0) * 4096 + (unat b1 - 0x80) * 64 + (unat b2 - 0x80), r)
                 else None
             | _ \<Rightarrow> None)
          else if 0xF0 \<le> unat b0 \<and> unat b0 \<le> 0xF4 then
            (case r0 of
               b1 # b2 # b3 # r \<Rightarrow>
                 if second4 (unat b0) (unat b1) \<and> cont b2 \<and> cont b3
                 then Some ((unat b0 - 0xF0) * 262144 + (unat b1 - 0x80) * 4096
                            + (unat b2 - 0x80) * 64 + (unat b3 - 0x80), r)
                 else None
             | _ \<Rightarrow> None)
          else None))"

lemma decode_char_shorter: "decode_char bs = Some (c, r) \<Longrightarrow> length r < length bs"
  by (auto simp: decode_char_def split: list.splits if_splits)

function decode_utf8 :: "bytes \<Rightarrow> rstring option" where
  "decode_utf8 bs =
     (if bs = [] then Some []
      else case decode_char bs of
             None \<Rightarrow> None
           | Some (c, r) \<Rightarrow> map_option (Cons c) (decode_utf8 r))"
  by pat_completeness auto
termination
  by (relation "measure length") (auto dest: decode_char_shorter)

declare decode_utf8.simps [simp del]

lemma decode_utf8_Nil [simp]: "decode_utf8 [] = Some []"
  by (simp add: decode_utf8.simps)

section \<open>The two are inverse\<close>

text \<open>The base-64 digits of a code point, and its encoding in terms of them.\<close>

lemma split64:
  fixes c :: nat
  obtains x y where "c = x * 64 + y" "y < 64"
  by (metis div_mult_mod_eq mod_less_divisor zero_less_numeral)

lemma digits2:
  assumes "z < 64" "y < (64 :: nat)"
  shows "(x * 4096 + y * 64 + z) div 4096 = x" "(x * 4096 + y * 64 + z) div 64 mod 64 = y"
    "(x * 4096 + y * 64 + z) mod 64 = z"
proof -
  have c: "x * 4096 + y * 64 + z = (x * 64 + y) * 64 + z" by simp
  have d: "((x * 64 + y) * 64 + z) div 64 = x * 64 + y" using assms(1) by simp
  have "((x * 64 + y) * 64 + z) div (64 * 64) = x"
    unfolding div_mult2_eq d using assms(2) by simp
  then show "(x * 4096 + y * 64 + z) div 4096 = x" by (simp add: c)
  show "(x * 4096 + y * 64 + z) div 64 mod 64 = y" unfolding c d using assms(2) by simp
  show "(x * 4096 + y * 64 + z) mod 64 = z"
    unfolding c mod_mult_self3 using assms(1) by simp
qed

lemma digits3:
  assumes "w < 64" "z < 64" "y < (64 :: nat)"
  shows "(x * 262144 + y * 4096 + z * 64 + w) div 262144 = x"
    "(x * 262144 + y * 4096 + z * 64 + w) div 4096 mod 64 = y"
    "(x * 262144 + y * 4096 + z * 64 + w) div 64 mod 64 = z"
    "(x * 262144 + y * 4096 + z * 64 + w) mod 64 = w"
proof -
  have c: "x * 262144 + y * 4096 + z * 64 + w = (x * 64 + y) * 4096 + z * 64 + w" by simp
  note d = digits2 [OF assms(1,2), of "x * 64 + y", folded c]
  show "(x * 262144 + y * 4096 + z * 64 + w) div 4096 mod 64 = y" using d(1) assms(3) by simp
  show "(x * 262144 + y * 4096 + z * 64 + w) div 64 mod 64 = z" by (rule d(2))
  show "(x * 262144 + y * 4096 + z * 64 + w) mod 64 = w" by (rule d(3))
  have "(x * 262144 + y * 4096 + z * 64 + w) div (4096 * 64) = x"
    unfolding div_mult2_eq d(1) using assms(3) by simp
  then show "(x * 262144 + y * 4096 + z * 64 + w) div 262144 = x" by simp
qed

lemma encode_char_2:
  assumes "2 \<le> x" "x < 32" "y < 64"
  shows "encode_char (x * 64 + y) = [byte (192 + x), byte (128 + y)]"
  using assms by (simp add: encode_char_def)

lemma encode_char_3:
  assumes "x < 16" "y < 64" "z < 64" "x = 0 \<Longrightarrow> 32 \<le> y"
  shows "encode_char (x * 4096 + y * 64 + z) = [byte (224 + x), byte (128 + y), byte (128 + z)]"
proof -
  let ?c = "x * 4096 + y * 64 + z"
  have "\<not> ?c < 0x80" "\<not> ?c < 0x800" "?c < 0x10000"
    using assms by (cases "x = 0"; linarith)+
  with digits2 [OF assms(3,2), of x] show ?thesis unfolding encode_char_def by simp
qed

lemma encode_char_4:
  assumes "x < 5" "y < 64" "z < 64" "w < 64" "x = 0 \<Longrightarrow> 16 \<le> y"
  shows "encode_char (x * 262144 + y * 4096 + z * 64 + w)
       = [byte (240 + x), byte (128 + y), byte (128 + z), byte (128 + w)]"
proof -
  let ?c = "x * 262144 + y * 4096 + z * 64 + w"
  have "\<not> ?c < 0x80" "\<not> ?c < 0x800" "\<not> ?c < 0x10000"
    using assms by (cases "x = 0"; linarith)+
  with digits3 [OF assms(4,3,2), of x] show ?thesis unfolding encode_char_def by simp
qed

lemma decode_encode_char:
  assumes "is_scalar c"
  shows "decode_char (encode_char c @ r) = Some (c, r)"
proof -
  obtain a w where a: "c = a * 64 + w" "w < 64" by (rule split64)
  obtain b z where b: "a = b * 64 + z" "z < 64" by (rule split64)
  obtain x y where x: "b = x * 64 + y" "y < 64" by (rule split64)
  have c3: "c = b * 4096 + z * 64 + w" and c4: "c = x * 262144 + y * 4096 + z * 64 + w"
    using a b x by simp_all
  consider "c < 0x80" | "0x80 \<le> c" "c < 0x800" | "0x800 \<le> c" "c < 0x10000"
    | "0x10000 \<le> c" "c \<le> 0x10FFFF"
    using assms unfolding is_scalar_def by linarith
  then show ?thesis
  proof cases
    case 1
    then show ?thesis by (simp add: encode_char_def decode_char_def)
  next
    case 2
    then have r: "2 \<le> a" "a < 32" using a by linarith+
    from encode_char_2 [OF r a(2)] have "encode_char c = [byte (192 + a), byte (128 + w)]"
      unfolding a(1) .
    with r a show ?thesis by (simp add: decode_char_def cont_def)
  next
    case 3
    then have r: "b < 16" "b = 0 \<Longrightarrow> 32 \<le> z" using c3 a b by linarith+
    from encode_char_3 [OF r(1) b(2) a(2) r(2)]
    have e: "encode_char c = [byte (224 + b), byte (128 + z), byte (128 + w)]"
      unfolding c3 .
    have "b = 13 \<Longrightarrow> z < 32" using assms a(2) b(2) unfolding is_scalar_def c3 by linarith
    with r b(2) have "second3 (224 + b) (128 + z)" by (auto simp: second3_def)
    with r a(2) b(2) show ?thesis unfolding e decode_char_def by (simp add: cont_def c3)
  next
    case 4
    then have r: "x < 5" "x = 0 \<Longrightarrow> 16 \<le> y" using c4 a(2) b(2) x(2) by linarith+
    from encode_char_4 [OF r(1) x(2) b(2) a(2) r(2)]
    have e: "encode_char c = [byte (240 + x), byte (128 + y), byte (128 + z), byte (128 + w)]"
      unfolding c4 .
    have "x = 4 \<Longrightarrow> y < 16" using 4 c4 by linarith
    with r x(2) have "second4 (240 + x) (128 + y)" by (auto simp: second4_def)
    with r a(2) b(2) x(2) show ?thesis unfolding e decode_char_def by (simp add: cont_def c4)
  qed
qed

lemma encode_char_nonempty [simp]: "encode_char c \<noteq> []"
  by (simp add: encode_char_def)

lemma decode_utf8_Cons:
  "decode_char bs = Some (c, r) \<Longrightarrow> decode_utf8 bs = map_option (Cons c) (decode_utf8 r)"
  using decode_char_shorter [of bs c r] by (auto simp: decode_utf8.simps [of bs])

theorem decode_encode_utf8: "valid_string s \<Longrightarrow> decode_utf8 (encode_utf8 s) = Some s"
  by (induction s) (simp_all add: decode_utf8_Cons [OF decode_encode_char])

text \<open>A byte in a range, as an offset from the range's start.\<close>

lemma u8_offset:
  assumes "k \<le> unat b" "unat b \<le> k + m"
  obtains x where "x \<le> m" "b = byte (k + x)" "unat b = k + x"
proof
  show "unat b - k \<le> m" "unat b = k + (unat b - k)" using assms by simp_all
  then show "b = byte (k + (unat b - k))" by (metis byte_unat)
qed

lemma cont_offset:
  assumes "cont b"
  obtains x where "x \<le> 63" "b = byte (0x80 + x)" "unat b = 0x80 + x"
  using u8_offset [of "0x80" b 63] assms unfolding cont_def by auto

lemma second3_range: "second3 x y \<Longrightarrow> 0x80 \<le> y \<and> y \<le> 0xBF"
  by (auto simp: second3_def split: if_splits)

lemma second4_range: "second4 x y \<Longrightarrow> 0x80 \<le> y \<and> y \<le> 0xBF"
  by (auto simp: second4_def split: if_splits)

lemma decode_char_sound_3:
  assumes "0xE0 \<le> unat b0" "unat b0 \<le> 0xEF" "second3 (unat b0) (unat b1)" "cont b2"
    and c: "c = (unat b0 - 0xE0) * 4096 + (unat b1 - 0x80) * 64 + (unat b2 - 0x80)"
  shows "is_scalar c \<and> encode_char c = [b0, b1, b2]"
proof -
  have "0xE0 \<le> unat b0" "unat b0 \<le> 0xE0 + 15" using assms by simp_all
  then obtain x where x: "x \<le> 15" "b0 = byte (0xE0 + x)" "unat b0 = 0xE0 + x"
    by (rule u8_offset)
  have "0x80 \<le> unat b1" "unat b1 \<le> 0x80 + 63"
    using second3_range [OF assms(3)] by simp_all
  then obtain y where y: "y \<le> 63" "b1 = byte (0x80 + y)" "unat b1 = 0x80 + y"
    by (rule u8_offset)
  obtain z where z: "z \<le> 63" "b2 = byte (0x80 + z)" "unat b2 = 0x80 + z"
    using cont_offset [OF assms(4)] .
  have c': "c = x * 4096 + y * 64 + z" using c x y z by simp
  have lo: "x = 0 \<Longrightarrow> 32 \<le> y" and hi: "x = 13 \<Longrightarrow> y \<le> 31"
    using assms(3) x y by (simp_all add: second3_def)
  have "is_scalar c"
    unfolding is_scalar_def c' using x(1) y(1) z(1) hi
    by (cases "x < 13"; cases "x = 13"; simp)
  with encode_char_3 [of x y z] lo x y z show ?thesis by (simp add: c')
qed

lemma decode_char_sound_4:
  assumes "0xF0 \<le> unat b0" "unat b0 \<le> 0xF4" "second4 (unat b0) (unat b1)" "cont b2" "cont b3"
    and c: "c = (unat b0 - 0xF0) * 262144 + (unat b1 - 0x80) * 4096 + (unat b2 - 0x80) * 64
              + (unat b3 - 0x80)"
  shows "is_scalar c \<and> encode_char c = [b0, b1, b2, b3]"
proof -
  have "0xF0 \<le> unat b0" "unat b0 \<le> 0xF0 + 4" using assms by simp_all
  then obtain x where x: "x \<le> 4" "b0 = byte (0xF0 + x)" "unat b0 = 0xF0 + x"
    by (rule u8_offset)
  have "0x80 \<le> unat b1" "unat b1 \<le> 0x80 + 63"
    using second4_range [OF assms(3)] by simp_all
  then obtain y where y: "y \<le> 63" "b1 = byte (0x80 + y)" "unat b1 = 0x80 + y"
    by (rule u8_offset)
  obtain z where z: "z \<le> 63" "b2 = byte (0x80 + z)" "unat b2 = 0x80 + z"
    using cont_offset [OF assms(4)] .
  obtain w where w: "w \<le> 63" "b3 = byte (0x80 + w)" "unat b3 = 0x80 + w"
    using cont_offset [OF assms(5)] .
  have c': "c = x * 262144 + y * 4096 + z * 64 + w" using c x y z w by simp
  have lo: "x = 0 \<Longrightarrow> 16 \<le> y" and hi: "x = 4 \<Longrightarrow> y \<le> 15"
    using assms(3) x y by (simp_all add: second4_def)
  have "is_scalar c"
    unfolding is_scalar_def c' using x(1) y(1) z(1) w(1) lo hi by linarith
  with encode_char_4 [of x y z w] lo x y z w show ?thesis by (simp add: c')
qed

lemma decode_char_sound_2:
  assumes "0xC2 \<le> unat b0" "unat b0 \<le> 0xDF" "cont b1"
    and c: "c = (unat b0 - 0xC0) * 64 + (unat b1 - 0x80)"
  shows "is_scalar c \<and> encode_char c = [b0, b1]"
proof -
  have "0xC0 \<le> unat b0" "unat b0 \<le> 0xC0 + 31" using assms by simp_all
  then obtain x where x: "x \<le> 31" "b0 = byte (0xC0 + x)" "unat b0 = 0xC0 + x"
    by (rule u8_offset)
  then have "2 \<le> x" using assms(1) by linarith
  obtain y where y: "y \<le> 63" "b1 = byte (0x80 + y)" "unat b1 = 0x80 + y"
    using cont_offset [OF assms(3)] .
  have c': "c = x * 64 + y" using c x y by simp
  with encode_char_2 [of x y] x y \<open>2 \<le> x\<close> show ?thesis by (simp add: is_scalar_def)
qed

lemma decode_char_sound:
  assumes "decode_char bs = Some (c, r)"
  shows "is_scalar c \<and> encode_char c @ r = bs"
proof -
  obtain b0 r0 where bs: "bs = b0 # r0" using assms by (cases bs) (simp_all add: decode_char_def)
  consider "unat b0 < 0x80" | "0xC2 \<le> unat b0" "unat b0 \<le> 0xDF"
    | "0xE0 \<le> unat b0" "unat b0 \<le> 0xEF" | "0xF0 \<le> unat b0" "unat b0 \<le> 0xF4"
    using assms by (fastforce simp: decode_char_def bs split: if_splits)
  then show ?thesis
  proof cases
    case 1
    with assms show ?thesis by (auto simp: decode_char_def bs is_scalar_def encode_char_def)
  next
    case 2
    with assms obtain b1 where "r0 = b1 # r" "cont b1" "c = (unat b0 - 0xC0) * 64 + (unat b1 - 0x80)"
      by (auto simp: decode_char_def bs split: list.splits if_splits)
    with decode_char_sound_2 [OF 2] show ?thesis by (simp add: bs)
  next
    case 3
    with assms obtain b1 b2 where "r0 = b1 # b2 # r" "second3 (unat b0) (unat b1)" "cont b2"
      "c = (unat b0 - 0xE0) * 4096 + (unat b1 - 0x80) * 64 + (unat b2 - 0x80)"
      by (auto simp: decode_char_def bs split: list.splits if_splits)
    with decode_char_sound_3 [OF 3] show ?thesis by (simp add: bs)
  next
    case 4
    with assms obtain b1 b2 b3 where "r0 = b1 # b2 # b3 # r" "second4 (unat b0) (unat b1)"
      "cont b2" "cont b3"
      "c = (unat b0 - 0xF0) * 262144 + (unat b1 - 0x80) * 4096 + (unat b2 - 0x80) * 64
         + (unat b3 - 0x80)"
      by (auto simp: decode_char_def bs split: list.splits if_splits)
    with decode_char_sound_4 [OF 4] show ?thesis by (simp add: bs)
  qed
qed

theorem decode_utf8_sound:
  "decode_utf8 bs = Some s \<Longrightarrow> valid_string s \<and> encode_utf8 s = bs"
proof (induction bs arbitrary: s rule: decode_utf8.induct)
  case (1 bs)
  show ?case
  proof (cases "bs = []")
    case True
    with "1.prems" show ?thesis by simp
  next
    case False
    with "1.prems" obtain c r t where "decode_char bs = Some (c, r)" "decode_utf8 r = Some t" "s = c # t"
      by (auto simp: decode_utf8.simps [of bs] split: option.splits)
    with "1.IH" [OF False, of "(c, r)" c r t] decode_char_sound [of bs c r] show ?thesis by simp
  qed
qed

lemma length_encode_char: "length (encode_char c) \<le> 4"
  by (simp add: encode_char_def)

text \<open>Bytes below 128 stand for themselves and occur nowhere else, the line feed among them.\<close>

lemma high_byte: "n < k \<Longrightarrow> 128 \<le> m \<Longrightarrow> m + k \<le> 256 \<Longrightarrow> 128 \<le> unat (byte (m + n))"
  by simp

lemma encode_char_high:
  assumes "128 \<le> c" "is_scalar c" "b \<in> set (encode_char c)"
  shows "128 \<le> unat b"
proof -
  have m: "128 \<le> unat (byte (128 + x mod 64))" for x
    by (rule high_byte [of _ 64]) simp_all
  consider "c < 0x800" | "0x800 \<le> c" "c < 0x10000" | "0x10000 \<le> c" "c \<le> 0x10FFFF"
    using assms(2) unfolding is_scalar_def by linarith
  then show ?thesis
  proof cases
    case 1
    then have "c div 64 < 32" by (simp add: less_mult_imp_div_less)
    with high_byte [of "c div 64" 32 192] assms 1 m show ?thesis by (auto simp: encode_char_def)
  next
    case 2
    then have "c div 4096 < 16" by (simp add: less_mult_imp_div_less)
    with high_byte [of "c div 4096" 16 224] assms 2 m show ?thesis by (auto simp: encode_char_def)
  next
    case 3
    then have "c div 262144 < 16" by (simp add: less_mult_imp_div_less)
    with high_byte [of "c div 262144" 16 240] assms 3 m show ?thesis by (auto simp: encode_char_def)
  qed
qed

lemma encode_char_ascii: "c < 128 \<Longrightarrow> encode_char c = [byte c]"
  by (simp add: encode_char_def)

lemma encode_no_lf: "valid_string l \<Longrightarrow> 10 \<notin> set l \<Longrightarrow> 10 \<notin> set (encode_utf8 l)"
proof (induction l)
  case (Cons c l)
  have "10 \<notin> set (encode_char c)"
  proof (cases "c < 128")
    case True
    then have "unat (byte c) = c" by simp
    then have "byte c \<noteq> 10" using Cons.prems by auto
    with True show ?thesis by (simp add: encode_char_ascii)
  next
    case False
    then show ?thesis using encode_char_high [of c 10] Cons.prems by auto
  qed
  with Cons show ?case by simp
qed simp

end
