(* ===== verification/Rstring.thy ===== *)
theory Rstring
  imports Utf8 "HOL-Library.Sublist"
begin

text \<open>
  The operations of \<open>String\<close> and \<open>str\<close> that the crate uses, on lists of Unicode scalar
  values: literals, decimal formatting and parsing, splitting, trimming and searching,
  each with the facts that parsing what was formatted needs.
\<close>

section \<open>Literals and decimal numbers\<close>

definition lit :: "string \<Rightarrow> rstring" where
  "lit s = map of_char s"

lemma lit_simps [simp]:
  "lit [] = []" "lit (c # s) = of_char c # lit s" "lit (s @ t) = lit s @ lit t"
  by (simp_all add: lit_def)

fun show_nat :: "nat \<Rightarrow> rstring" where
  "show_nat n = (if n < 10 then [48 + n] else show_nat (n div 10) @ [48 + n mod 10])"

declare show_nat.simps [simp del]

definition is_digit :: "rchar \<Rightarrow> bool" where
  "is_digit c \<longleftrightarrow> 48 \<le> c \<and> c \<le> 57"

definition decimal_value :: "rstring \<Rightarrow> nat" where
  "decimal_value s = foldl (\<lambda>acc c. acc * 10 + (c - 48)) 0 s"

lemma decimal_value_snoc [simp]: "decimal_value (s @ [c]) = decimal_value s * 10 + (c - 48)"
  by (simp add: decimal_value_def)

lemma show_nat_props:
  "show_nat n \<noteq> [] \<and> list_all is_digit (show_nat n) \<and> decimal_value (show_nat n) = n"
proof (induction n rule: show_nat.induct)
  case (1 n)
  have "n mod 10 \<le> 9" using mod_less_divisor [of 10 n] by linarith
  with 1 show ?case
    by (cases "n < 10") (simp_all add: show_nat.simps [of n] is_digit_def, simp add: decimal_value_def)
qed

lemmas show_nat_nonempty [simp] = show_nat_props [THEN conjunct1]
lemmas show_nat_digits = show_nat_props [THEN conjunct2, THEN conjunct1]
lemmas decimal_value_show_nat [simp] = show_nat_props [THEN conjunct2, THEN conjunct2]

text \<open>
  \<open>u8::from_str\<close>: an optional \<open>+\<close>, then at least one digit and nothing else, with a value
  that fits.
\<close>

definition strip_plus :: "rstring \<Rightarrow> rstring" where
  "strip_plus s = (case s of c # r \<Rightarrow> if c = 43 then r else s | [] \<Rightarrow> [])"

definition parse_u8 :: "rstring \<Rightarrow> u8 option" where
  "parse_u8 s =
     (let d = strip_plus s in
      if d \<noteq> [] \<and> list_all is_digit d \<and> decimal_value d < 256
      then Some (byte (decimal_value d)) else None)"

lemma strip_plus_digits: "list_all is_digit s \<Longrightarrow> strip_plus s = s"
  by (cases s) (auto simp: strip_plus_def is_digit_def)

theorem parse_show_u8: "parse_u8 (show_nat (unat b)) = Some b"
  by (simp add: parse_u8_def strip_plus_digits show_nat_digits)

section \<open>Splitting, trimming, searching\<close>

fun split_char :: "rchar \<Rightarrow> rstring \<Rightarrow> rstring list" where
  "split_char d [] = [[]]"
| "split_char d (c # s) =
     (if c = d then [] # split_char d s
      else case split_char d s of p # ps \<Rightarrow> (c # p) # ps | [] \<Rightarrow> [[c]])"

lemma split_char_nonempty [simp]: "split_char d s \<noteq> []"
  by (induction s) (auto split: list.splits)

lemma split_char_none: "d \<notin> set s \<Longrightarrow> split_char d s = [s]"
  by (induction s) auto

lemma split_char_append:
  "d \<notin> set s \<Longrightarrow> split_char d (s @ d # t) = s # split_char d t"
  by (induction s) auto

text \<open>The code points of property \<open>White_Space\<close>, which \<open>char::is_whitespace\<close> tests.\<close>

definition is_whitespace :: "rchar \<Rightarrow> bool" where
  "is_whitespace c \<longleftrightarrow>
     (9 \<le> c \<and> c \<le> 13) \<or> c = 32 \<or> c = 0x85 \<or> c = 0xA0 \<or> c = 0x1680
     \<or> (0x2000 \<le> c \<and> c \<le> 0x200A) \<or> c = 0x2028 \<or> c = 0x2029 \<or> c = 0x202F \<or> c = 0x205F
     \<or> c = 0x3000"

definition trim :: "rstring \<Rightarrow> rstring" where
  "trim s = rev (dropWhile is_whitespace (rev (dropWhile is_whitespace s)))"

lemma trim_id:
  "s \<noteq> [] \<Longrightarrow> \<not> is_whitespace (hd s) \<Longrightarrow> \<not> is_whitespace (last s) \<Longrightarrow> trim s = s"
  unfolding trim_def by (metis dropWhile_eq_self_iff hd_rev rev_rev_ident)

lemma trim_skip [simp]: "is_whitespace c \<Longrightarrow> trim (c # s) = trim s"
  by (simp add: trim_def)

definition starts_with :: "rstring \<Rightarrow> rstring \<Rightarrow> bool" where
  "starts_with p s \<longleftrightarrow> prefix p s"

definition ends_with :: "rstring \<Rightarrow> rstring \<Rightarrow> bool" where
  "ends_with p s \<longleftrightarrow> suffix p s"

lemma starts_with_code [simp]:
  "starts_with [] s = True"
  "starts_with (c # p) [] = False"
  "starts_with (c # p) (d # s) = (c = d \<and> starts_with p s)"
  by (simp_all add: starts_with_def)

end
