(* ===== verification/Frame.thy ===== *)
theory Frame
  imports Rstring
begin

text \<open>
  \<open>src/frame.rs\<close>, \<open>src/error.rs\<close> and \<open>src/message.rs\<close>: opcodes, frames, messages and the
  error type of the crate with its \<open>Display\<close> texts.
\<close>

section \<open>Opcodes and frames (frame.rs)\<close>

datatype op_code = Continue | Text | Binary | Close | Ping | Pong

definition as_u8 :: "op_code \<Rightarrow> u8" where
  "as_u8 c = (case c of
      op_code.Continue \<Rightarrow> 0x0
    | op_code.Text \<Rightarrow> 0x1
    | op_code.Binary \<Rightarrow> 0x2
    | op_code.Close \<Rightarrow> 0x8
    | op_code.Ping \<Rightarrow> 0x9
    | op_code.Pong \<Rightarrow> 0xA)"

definition is_control :: "op_code \<Rightarrow> bool" where
  "is_control c \<longleftrightarrow> c = op_code.Close \<or> c = op_code.Ping \<or> c = op_code.Pong"

lemma is_control_simps [simp]:
  "\<not> is_control op_code.Continue" "\<not> is_control op_code.Text" "\<not> is_control op_code.Binary"
  "is_control op_code.Close" "is_control op_code.Ping" "is_control op_code.Pong"
  by (simp_all add: is_control_def)

record frame =
  final_fragment :: bool
  opcode :: op_code
  payload :: bytes
  compressed :: bool

definition new_frame :: "bool \<Rightarrow> op_code \<Rightarrow> bytes \<Rightarrow> bool \<Rightarrow> frame" where
  "new_frame fin op p z = \<lparr>final_fragment = fin, opcode = op, payload = p, compressed = z\<rparr>"

lemma new_frame_simps [simp]:
  "final_fragment (new_frame fin op p z) = fin" "opcode (new_frame fin op p z) = op"
  "payload (new_frame fin op p z) = p" "compressed (new_frame fin op p z) = z"
  by (simp_all add: new_frame_def)

section \<open>Errors (error.rs)\<close>

text \<open>
  The error types of the standard library and of the crates the library uses. An
  \<open>io::Error\<close> is known by its kind, a \<open>FromUtf8Error\<close> by the bytes that were rejected; the
  others carry nothing the crate looks at.
\<close>

datatype io_error =
  UnexpectedEof | ConnectionReset | BrokenPipe | InvalidData | InvalidInput | WriteZero
  | AddrNotAvailable | Other | OtherKind nat

datatype elapsed = Elapsed
datatype from_utf8_error = RejectedBytes bytes
datatype parse_error = UrlParseError nat
datatype invalid_dns_name_error = InvalidDnsNameError

datatype error =
    SendError frame
  | CommunicationError
  | Timeout elapsed
  | IOError io_error
  | FromUtf8Error from_utf8_error
  | InvalidHTTPHandshake
  | NoConnectionHeaderPresent
  | NoUpgradeHeaderPresent
  | NoHostHeaderPresent
  | NoSecWebsocketKey
  | NoUpgrade
  | InvalidAcceptKey
  | RSVNotZero
  | ControlFramesFragmented
  | ControlFramePayloadSize
  | CustomFragmentSizeExceeded nat nat
  | MaxFrameSize
  | MaxMessageSize
  | InvalidFrameFragmentation
  | FragmentedInProgress
  | InvalidContinuationFrame
  | InvalidOpcode
  | HttpParseError
  | InvalidHTTPRequestLine
  | MissingHTTPMethod
  | MissingHTTPUri
  | MissingHTTPVersion
  | InvalidContentLength
  | URLParseError parse_error
  | InvalidSchemeURL
  | URLNoHost
  | URLNoPort
  | IncompleteHTTPRequest
  | DomainError invalid_dns_name_error
  | SchemeAgainstTlsConfig bool rstring
  | InvalidMaxWindowBits

definition show_bool :: "bool \<Rightarrow> rstring" where
  "show_bool b = lit (if b then ''true'' else ''false'')"

text \<open>
  The texts of \<open>#[error(...)]\<close>. Where the attribute is \<open>{source}\<close> the text is that of the
  wrapped error, whose type is not part of the crate: \<open>src\<close> stands for it.
\<close>

definition display :: "(error \<Rightarrow> rstring) \<Rightarrow> error \<Rightarrow> rstring" where
  "display src e = (case e of
      SendError _ \<Rightarrow> src e
    | CommunicationError \<Rightarrow> lit ''channel communication error''
    | Timeout _ \<Rightarrow> src e
    | IOError _ \<Rightarrow> lit ''IO Error happened: '' @ src e
    | FromUtf8Error _ \<Rightarrow> src e
    | InvalidHTTPHandshake \<Rightarrow> lit ''Invalid handshake request method and version''
    | NoConnectionHeaderPresent \<Rightarrow> lit ''Connection: Upgrade header missing in the request''
    | NoUpgradeHeaderPresent \<Rightarrow> lit ''Upgrade: websocket header missing in the request''
    | NoHostHeaderPresent \<Rightarrow> lit ''Host header missing in the request''
    | NoSecWebsocketKey \<Rightarrow> lit ''Couldn't find Sec-WebSocket-Key header in the request''
    | NoUpgrade \<Rightarrow> lit ''Server didn't upgrade the connection''
    | InvalidAcceptKey \<Rightarrow> lit ''Sever didn't send a valid Sec-WebSocket-Accept key''
    | RSVNotZero \<Rightarrow> lit ''RSV not zero''
    | ControlFramesFragmented \<Rightarrow> lit ''Control frames must not be fragmented''
    | ControlFramePayloadSize \<Rightarrow>
        lit ''Control frame with invalid payload size, can be greater than 125''
    | CustomFragmentSizeExceeded a b \<Rightarrow>
        lit ''fragment_size: `'' @ show_nat a
          @ lit ''` can't be greater than max_frame_size: `'' @ show_nat a @ lit ''`''
    | MaxFrameSize \<Rightarrow> lit ''Max frame size reached''
    | MaxMessageSize \<Rightarrow> lit ''Max message size reached''
    | InvalidFrameFragmentation \<Rightarrow>
        lit ''Invalid frame while there is a fragmented message in progress''
    | FragmentedInProgress \<Rightarrow>
        lit ''Incoming fragmented message but there is one already in progress''
    | InvalidContinuationFrame \<Rightarrow>
        lit ''Invalid continuation frame: no fragmented message to continue''
    | InvalidOpcode \<Rightarrow> lit ''Invalid Opcode''
    | HttpParseError \<Rightarrow> lit ''Failed to parse HTTP headers''
    | InvalidHTTPRequestLine \<Rightarrow> lit ''Invalid HTTP request line''
    | MissingHTTPMethod \<Rightarrow> lit ''Missing HTTP method''
    | MissingHTTPUri \<Rightarrow> lit ''Missing HTTP URI''
    | MissingHTTPVersion \<Rightarrow> lit ''Missing HTTP version''
    | InvalidContentLength \<Rightarrow> lit ''Invalid Content-Length''
    | URLParseError _ \<Rightarrow> src e
    | InvalidSchemeURL \<Rightarrow> lit ''Invalid scheme in WebSocket URL''
    | URLNoHost \<Rightarrow> lit ''URL has no host''
    | URLNoPort \<Rightarrow> lit ''URL has no port''
    | IncompleteHTTPRequest \<Rightarrow> lit ''Incomplete HTTP request''
    | DomainError _ \<Rightarrow> src e
    | SchemeAgainstTlsConfig t u \<Rightarrow>
        lit ''use_tls = `'' @ show_bool t
          @ lit ''` argument does not match the passed URL scheme: `'' @ u @ lit ''`''
    | InvalidMaxWindowBits \<Rightarrow> lit ''max_window_bits should be a value between 8 and 15'')"

section \<open>Decoding an opcode (frame.rs)\<close>

definition op_code_from :: "u8 \<Rightarrow> error + op_code" where
  "op_code_from b =
     (if b = 0x0 then Inr op_code.Continue
      else if b = 0x1 then Inr op_code.Text
      else if b = 0x2 then Inr op_code.Binary
      else if b = 0x8 then Inr op_code.Close
      else if b = 0x9 then Inr op_code.Ping
      else if b = 0xA then Inr op_code.Pong
      else Inl InvalidOpcode)"

lemma op_code_from_as_u8 [simp]: "op_code_from (as_u8 c) = Inr c"
  by (cases c) (simp_all add: as_u8_def op_code_from_def)

lemma op_code_from_InrD: "op_code_from b = Inr c \<Longrightarrow> as_u8 c = b"
  by (auto simp: op_code_from_def as_u8_def split: if_splits)

text \<open>Opcodes are ordered by their numbers, so that the control opcodes are those from \<open>Close\<close> on.\<close>

instantiation op_code :: linorder
begin

definition less_eq_op_code :: "op_code \<Rightarrow> op_code \<Rightarrow> bool" where
  "less_eq_op_code c d \<longleftrightarrow> as_u8 c \<le> as_u8 d"

definition less_op_code :: "op_code \<Rightarrow> op_code \<Rightarrow> bool" where
  "less_op_code c d \<longleftrightarrow> as_u8 c < as_u8 d"

instance
proof
  fix c d :: op_code
  assume "c \<le> d" "d \<le> c"
  then have "op_code_from (as_u8 c) = op_code_from (as_u8 d)" by (simp add: less_eq_op_code_def)
  then show "c = d" by simp
qed (auto simp: less_eq_op_code_def less_op_code_def)

end

lemma is_control_le: "is_control c \<longleftrightarrow> op_code.Close \<le> c"
  by (cases c) (simp_all add: less_eq_op_code_def as_u8_def word_le_nat_alt)

lemma as_u8_inject [simp]: "as_u8 c = as_u8 d \<longleftrightarrow> c = d"
  by (metis op_code_from_as_u8 sum.inject(2))

section \<open>Messages (message.rs)\<close>

datatype message = Text rstring | Binary bytes

definition from_utf8 :: "bytes \<Rightarrow> error + rstring" where
  "from_utf8 bs =
     (case decode_utf8 bs of
        Some s \<Rightarrow> Inr s
      | None \<Rightarrow> Inl (FromUtf8Error (RejectedBytes bs)))"

definition from_frame :: "frame \<Rightarrow> error + message" where
  "from_frame fr =
     (case opcode fr of
        op_code.Text \<Rightarrow> (case from_utf8 (payload fr) of Inr s \<Rightarrow> Inr (message.Text s) | Inl e \<Rightarrow> Inl e)
      | op_code.Binary \<Rightarrow> Inr (message.Binary (payload fr))
      | _ \<Rightarrow> Inl InvalidOpcode)"

definition as_binary :: "message \<Rightarrow> bytes" where
  "as_binary m = (case m of message.Text s \<Rightarrow> encode_utf8 s | message.Binary d \<Rightarrow> d)"

definition as_text :: "message \<Rightarrow> error + rstring" where
  "as_text m = (case m of message.Text s \<Rightarrow> Inr s | message.Binary d \<Rightarrow> from_utf8 d)"

text \<open>
  The values of the Rust type: a \<open>Text\<close> holds a \<open>String\<close>, hence scalar values only.
\<close>

definition message_ok :: "message \<Rightarrow> bool" where
  "message_ok m = (case m of message.Text s \<Rightarrow> valid_string s | message.Binary d \<Rightarrow> True)"

definition message_opcode :: "message \<Rightarrow> op_code" where
  "message_opcode m = (case m of message.Text s \<Rightarrow> op_code.Text | message.Binary d \<Rightarrow> op_code.Binary)"

lemma from_utf8_encode [simp]: "valid_string s \<Longrightarrow> from_utf8 (encode_utf8 s) = Inr s"
  by (simp add: from_utf8_def decode_encode_utf8)

lemma from_utf8_InrD: "from_utf8 bs = Inr s \<Longrightarrow> valid_string s \<and> encode_utf8 s = bs"
  by (auto simp: from_utf8_def dest: decode_utf8_sound split: option.splits)

lemma from_frame_message:
  "message_ok m \<Longrightarrow> opcode fr = message_opcode m \<Longrightarrow> payload fr = as_binary m \<Longrightarrow> from_frame fr = Inr m"
  by (cases m) (simp_all add: from_frame_def message_opcode_def as_binary_def message_ok_def)

lemma from_frame_InrD:
  "from_frame fr = Inr m \<Longrightarrow>
     message_ok m \<and> opcode fr = message_opcode m \<and> payload fr = as_binary m"
  by (auto simp: from_frame_def message_opcode_def as_binary_def message_ok_def
      split: op_code.splits sum.splits dest: from_utf8_InrD)

section \<open>Codecs\<close>

text \<open>
  Opcodes: \<open>OpCode::from\<close> accepts exactly the bytes \<open>as_u8\<close> produces and gives back the
  opcode, and control opcodes are exactly those whose number has its bit 3 set.
\<close>

lemma op_code_codec:
  "(op_code_from b = Inr c \<longleftrightarrow> as_u8 c = b) \<and> (is_control c \<longleftrightarrow> as_u8 c AND 8 \<noteq> 0)"
proof
  show "op_code_from b = Inr c \<longleftrightarrow> as_u8 c = b" using op_code_from_InrD op_code_from_as_u8 by blast
  show "is_control c \<longleftrightarrow> as_u8 c AND 8 \<noteq> 0" by (cases c) (simp_all add: as_u8_def)
qed

text \<open>
  Messages: \<open>from_frame\<close> turns a frame into the message \<open>m\<close> exactly when \<open>m\<close> is a value
  of the Rust type (its text a valid string) and the frame carries \<open>m\<close>'s opcode and bytes.
  So bytes that are not UTF-8 are never a text, and control and continuation frames never a
  message.
\<close>

lemma from_frame_iff:
  "from_frame fr = Inr m \<longleftrightarrow>
     message_ok m \<and> opcode fr = message_opcode m \<and> payload fr = as_binary m"
  by (blast dest: from_frame_InrD from_frame_message)

text \<open>
  The text of \<open>CustomFragmentSizeExceeded\<close> names \<open>{0}\<close> twice: it shows the fragment size
  in the place of \<open>max_frame_size\<close> and never the bound that was exceeded.
\<close>

lemma fragment_size_text_omits_limit:
  "display src (CustomFragmentSizeExceeded n k)
   = lit ''fragment_size: `'' @ show_nat n @ lit ''` can't be greater than max_frame_size: `''
       @ show_nat n @ lit ''`''
   \<and> display src (CustomFragmentSizeExceeded n k) = display src (CustomFragmentSizeExceeded n k')"
  by (simp add: display_def)

end
