(* ===== verification/Socket_Stream.thy ===== *)
theory Socket_Stream
  imports Frame
begin

text \<open>
  \<open>src/stream.rs\<close>: the socket of a connection, a plain TCP stream or one under TLS. Its methods
  pass the call on to the stream it holds. The two kinds of stream are parameters, given by
  their poll functions; the locale has what tokio documents for \<open>AsyncRead\<close> and \<open>AsyncWrite\<close>.
\<close>

section \<open>Streams (parameters)\<close>

datatype 'a poll = Ready 'a | Pending

record 's async_io =
  poll_read :: "nat \<Rightarrow> 's \<Rightarrow> (io_error + bytes) poll \<times> 's"
  poll_write :: "bytes \<Rightarrow> 's \<Rightarrow> (io_error + nat) poll \<times> 's"
  poll_flush :: "'s \<Rightarrow> (io_error + unit) poll \<times> 's"
  poll_shutdown :: "'s \<Rightarrow> (io_error + unit) poll \<times> 's"

text \<open>
  \<open>inflow\<close> are the bytes still to be read and \<open>outflow\<close> those written so far. A read fills at most
  the room in its buffer with the next bytes, a write takes a beginning of its buffer, and a call
  that is not ready or fails moves no bytes.
\<close>

definition moves_nothing :: "('s \<Rightarrow> bytes) \<Rightarrow> ('s \<Rightarrow> bytes) \<Rightarrow> 's \<Rightarrow> 's \<Rightarrow> bool" where
  "moves_nothing inflow outflow s s' \<longleftrightarrow> inflow s' = inflow s \<and> outflow s' = outflow s"

locale byte_stream =
  fixes T :: "'s async_io" and inflow outflow :: "'s \<Rightarrow> bytes"
  assumes read_ready: "poll_read T n s = (Ready (Inr bs), s') \<Longrightarrow>
      length bs \<le> n \<and> inflow s = bs @ inflow s' \<and> outflow s' = outflow s"
    and read_not_ready: "poll_read T n s = (r, s') \<Longrightarrow> \<forall>bs. r \<noteq> Ready (Inr bs) \<Longrightarrow> moves_nothing inflow outflow s s'"
    and write_ready: "poll_write T bs s = (Ready (Inr k), s') \<Longrightarrow>
      k \<le> length bs \<and> outflow s' = outflow s @ take k bs \<and> inflow s' = inflow s"
    and write_not_ready: "poll_write T bs s = (q, s') \<Longrightarrow> \<forall>k. q \<noteq> Ready (Inr k) \<Longrightarrow> moves_nothing inflow outflow s s'"
    and flush_moves: "moves_nothing inflow outflow s (snd (poll_flush T s))"
    and shutdown_moves: "moves_nothing inflow outflow s (snd (poll_shutdown T s))"

section \<open>SocketFlowStream (stream.rs)\<close>

datatype ('p, 't) socket_flow_stream = Plain 'p | Secure 't

text \<open>\<open>Pin::new(s).poll_...(cx, ...)\<close> on the stream inside.\<close>

definition delegate ::
  "('p \<Rightarrow> 'r \<times> 'p) \<Rightarrow> ('t \<Rightarrow> 'r \<times> 't) \<Rightarrow> ('p, 't) socket_flow_stream \<Rightarrow> 'r \<times> ('p, 't) socket_flow_stream" where
  "delegate f g s =
     (case s of
        Plain p \<Rightarrow> (case f p of (r, p') \<Rightarrow> (r, Plain p'))
      | Secure t \<Rightarrow> (case g t of (r, t') \<Rightarrow> (r, Secure t')))"

definition socket_poll_read ::
  "'p async_io \<Rightarrow> 't async_io \<Rightarrow> nat \<Rightarrow> ('p, 't) socket_flow_stream
     \<Rightarrow> (io_error + bytes) poll \<times> ('p, 't) socket_flow_stream" where
  "socket_poll_read P T n = delegate (poll_read P n) (poll_read T n)"

definition socket_poll_write ::
  "'p async_io \<Rightarrow> 't async_io \<Rightarrow> bytes \<Rightarrow> ('p, 't) socket_flow_stream
     \<Rightarrow> (io_error + nat) poll \<times> ('p, 't) socket_flow_stream" where
  "socket_poll_write P T bs = delegate (poll_write P bs) (poll_write T bs)"

definition socket_poll_flush ::
  "'p async_io \<Rightarrow> 't async_io \<Rightarrow> ('p, 't) socket_flow_stream
     \<Rightarrow> (io_error + unit) poll \<times> ('p, 't) socket_flow_stream" where
  "socket_poll_flush P T = delegate (poll_flush P) (poll_flush T)"

definition socket_poll_shutdown ::
  "'p async_io \<Rightarrow> 't async_io \<Rightarrow> ('p, 't) socket_flow_stream
     \<Rightarrow> (io_error + unit) poll \<times> ('p, 't) socket_flow_stream" where
  "socket_poll_shutdown P T = delegate (poll_shutdown P) (poll_shutdown T)"

definition socket_io :: "'p async_io \<Rightarrow> 't async_io \<Rightarrow> ('p, 't) socket_flow_stream async_io" where
  "socket_io P T = \<lparr>poll_read = socket_poll_read P T, poll_write = socket_poll_write P T,
     poll_flush = socket_poll_flush P T, poll_shutdown = socket_poll_shutdown P T\<rparr>"

lemmas socket_defs =
  socket_io_def socket_poll_read_def socket_poll_write_def socket_poll_flush_def socket_poll_shutdown_def

lemma delegate_iff:
  "delegate f g s = (r, s') \<longleftrightarrow>
     (\<exists>p p'. s = Plain p \<and> s' = Plain p' \<and> f p = (r, p')) \<or> (\<exists>t t'. s = Secure t \<and> s' = Secure t' \<and> g t = (r, t'))"
  by (cases s) (auto simp: delegate_def split: prod.splits)

section \<open>It is a stream when its two variants are\<close>

locale two_streams = p: byte_stream P input_p output_p + t: byte_stream T input_t output_t
  for P :: "'p async_io" and input_p output_p and T :: "'t async_io" and input_t output_t
begin

lemma socket_byte_stream:
  "byte_stream (socket_io P T) (case_socket_flow_stream input_p input_t) (case_socket_flow_stream output_p output_t)"
proof
  fix s
  show "moves_nothing (case_socket_flow_stream input_p input_t) (case_socket_flow_stream output_p output_t)
      s (snd (poll_flush (socket_io P T) s))"
    "moves_nothing (case_socket_flow_stream input_p input_t) (case_socket_flow_stream output_p output_t)
      s (snd (poll_shutdown (socket_io P T) s))"
    using p.flush_moves t.flush_moves p.shutdown_moves t.shutdown_moves
    by (cases s; simp add: socket_defs delegate_def moves_nothing_def split: prod.split; metis snd_conv)+
qed (auto simp: socket_defs delegate_iff moves_nothing_def
    dest: p.read_ready t.read_ready p.write_ready t.write_ready
      p.read_not_ready [unfolded moves_nothing_def] t.read_not_ready [unfolded moves_nothing_def]
      p.write_not_ready [unfolded moves_nothing_def] t.write_not_ready [unfolded moves_nothing_def])

end

sublocale two_streams \<subseteq> socket: byte_stream "socket_io P T"
    "case_socket_flow_stream input_p input_t" "case_socket_flow_stream output_p output_t"
  by (rule socket_byte_stream)

section \<open>A concrete pair\<close>

text \<open>
  A pipe in memory that moves at most one byte at a time, and one that moves all it can and is
  not ready when there is nothing to read.
\<close>

definition pipe :: "(bytes \<times> bytes) async_io" where
  "pipe = \<lparr>poll_read = (\<lambda>n (i, out). (Ready (Inr (take (min n 1) i)), (drop (min n 1) i, out))),
     poll_write = (\<lambda>bs (i, out). (Ready (Inr (min 1 (length bs))), (i, out @ take (min 1 (length bs)) bs))),
     poll_flush = (\<lambda>s. (Ready (Inr ()), s)), poll_shutdown = (\<lambda>s. (Ready (Inr ()), s))\<rparr>"

definition wide_pipe :: "(bytes \<times> bytes) async_io" where
  "wide_pipe = \<lparr>poll_read = (\<lambda>n (i, out). if i = [] then (Pending, (i, out)) else (Ready (Inr (take n i)), (drop n i, out))),
     poll_write = (\<lambda>bs (i, out). (Ready (Inr (length bs)), (i, out @ bs))),
     poll_flush = (\<lambda>s. (Ready (Inr ()), s)), poll_shutdown = (\<lambda>s. (Ready (Inr ()), s))\<rparr>"

interpretation pipes: two_streams pipe fst snd wide_pipe fst snd
  by unfold_locales (auto simp: pipe_def wide_pipe_def moves_nothing_def split: if_splits)

end
