(* ===== verification/Extensions.thy ===== *)
theory Extensions
  imports Frame
begin

text \<open>
  \<open>src/extensions.rs\<close> and \<open>src/config.rs\<close>: the permessage-deflate parameters, how they are
  parsed from a \<open>Sec-WebSocket-Extensions\<close> value, merged on the server and written into a
  request or response, and the configuration records that carry them.
\<close>

section \<open>Constants and the parameter record (extensions.rs)\<close>

definition PERMESSAGE_DEFLATE :: rstring where
  "PERMESSAGE_DEFLATE = lit ''permessage-deflate''"

definition CLIENT_NO_CONTEXT_TAKEOVER :: rstring where
  "CLIENT_NO_CONTEXT_TAKEOVER = lit ''client_no_context_takeover''"

definition SERVER_NO_CONTEXT_TAKEOVER :: rstring where
  "SERVER_NO_CONTEXT_TAKEOVER = lit ''server_no_context_takeover''"

definition CLIENT_MAX_WINDOW_BITS :: rstring where
  "CLIENT_MAX_WINDOW_BITS = lit ''client_max_window_bits''"

definition SERVER_MAX_WINDOW_BITS :: rstring where
  "SERVER_MAX_WINDOW_BITS = lit ''server_max_window_bits''"

lemmas extension_names =
  PERMESSAGE_DEFLATE_def CLIENT_NO_CONTEXT_TAKEOVER_def SERVER_NO_CONTEXT_TAKEOVER_def
  CLIENT_MAX_WINDOW_BITS_def SERVER_MAX_WINDOW_BITS_def

record extensions =
  permessage_deflate :: bool
  client_no_context_takeover :: "bool option"
  server_no_context_takeover :: "bool option"
  client_max_window_bits :: "u8 option"
  server_max_window_bits :: "u8 option"

definition default_extensions :: extensions where
  "default_extensions = \<lparr>permessage_deflate = False, client_no_context_takeover = None,
     server_no_context_takeover = None, client_max_window_bits = None,
     server_max_window_bits = None\<rparr>"

definition unwrap_or :: "'a \<Rightarrow> 'a option \<Rightarrow> 'a" where
  "unwrap_or d x = (case x of Some v \<Rightarrow> v | None \<Rightarrow> d)"

lemma unwrap_or_simps [simp]: "unwrap_or d None = d" "unwrap_or d (Some v) = v"
  by (simp_all add: unwrap_or_def)

section \<open>Parsing\<close>

text \<open>\<open>s.split('=').last()\<close>.\<close>

definition last_part :: "rstring \<Rightarrow> rstring option" where
  "last_part s = (case rev (split_char 61 s) of [] \<Rightarrow> None | x # _ \<Rightarrow> Some x)"

text \<open>
  One iteration of the loop over the \<open>;\<close>-separated parts; \<open>None\<close> is the early return of
  \<open>last()?\<close>.
\<close>

definition parse_part :: "rstring \<Rightarrow> extensions \<Rightarrow> extensions option" where
  "parse_part p e =
     (if trim p = PERMESSAGE_DEFLATE then Some (e\<lparr>permessage_deflate := True\<rparr>)
      else if starts_with CLIENT_NO_CONTEXT_TAKEOVER (trim p) then
        Some (e\<lparr>client_no_context_takeover := Some True\<rparr>)
      else if starts_with SERVER_NO_CONTEXT_TAKEOVER (trim p) then
        Some (e\<lparr>server_no_context_takeover := Some True\<rparr>)
      else if starts_with CLIENT_MAX_WINDOW_BITS (trim p) then
        (if 61 \<notin> set p then Some (e\<lparr>client_max_window_bits := Some 15\<rparr>)
         else case last_part (trim p) of
                None \<Rightarrow> None
              | Some v \<Rightarrow> Some (e\<lparr>client_max_window_bits := parse_u8 v\<rparr>))
      else if starts_with SERVER_MAX_WINDOW_BITS (trim p) then
        (if 61 \<notin> set p then Some (e\<lparr>server_max_window_bits := Some 15\<rparr>)
         else case last_part (trim p) of
                None \<Rightarrow> None
              | Some v \<Rightarrow> Some (e\<lparr>server_max_window_bits := parse_u8 v\<rparr>))
      else Some e)"

fun parse_parts :: "rstring list \<Rightarrow> extensions \<Rightarrow> extensions option" where
  "parse_parts [] e = Some e"
| "parse_parts (p # ps) e =
     (case parse_part p e of None \<Rightarrow> None | Some e' \<Rightarrow> parse_parts ps e')"

definition parse_extensions :: "rstring \<Rightarrow> extensions option" where
  "parse_extensions header_value =
     (case parse_parts (split_char 59 header_value) default_extensions of
        None \<Rightarrow> None
      | Some e \<Rightarrow> if \<not> permessage_deflate e then None else Some e)"

section \<open>Merging\<close>

definition option_and :: "'a option \<Rightarrow> 'b option \<Rightarrow> 'b option" where
  "option_and x y = (case x of None \<Rightarrow> None | Some _ \<Rightarrow> y)"

definition merge_bits :: "u8 option \<Rightarrow> u8 option \<Rightarrow> u8 option" where
  "merge_bits s c =
     (case (s, c) of
        (Some sb, Some cb) \<Rightarrow> Some (min sb cb)
      | (Some sb, None) \<Rightarrow> Some sb
      | (None, Some cb) \<Rightarrow> Some cb
      | (None, None) \<Rightarrow> None)"

definition merge_extensions :: "extensions option \<Rightarrow> extensions option \<Rightarrow> extensions option" where
  "merge_extensions server client =
     (case server of None \<Rightarrow> None | Some s \<Rightarrow>
       (case client of None \<Rightarrow> None | Some c \<Rightarrow>
         Some \<lparr>permessage_deflate = (permessage_deflate c \<and> permessage_deflate s),
               client_no_context_takeover =
                 option_and (client_no_context_takeover s) (client_no_context_takeover c),
               server_no_context_takeover =
                 option_and (server_no_context_takeover s) (server_no_context_takeover c),
               client_max_window_bits =
                 merge_bits (client_max_window_bits s) (client_max_window_bits c),
               server_max_window_bits =
                 merge_bits (server_max_window_bits s) (server_max_window_bits c)\<rparr>))"

section \<open>Writing the header\<close>

definition add_extension_headers :: "rstring \<Rightarrow> extensions option \<Rightarrow> rstring" where
  "add_extension_headers request exts =
     (case exts of
        None \<Rightarrow> request @ [13, 10]
      | Some e \<Rightarrow>
          request
          @ (if permessage_deflate e then
               lit ''Sec-WebSocket-Extensions: '' @ PERMESSAGE_DEFLATE
               @ (if client_no_context_takeover e = Some True
                  then lit ''; '' @ CLIENT_NO_CONTEXT_TAKEOVER else [])
               @ (if server_no_context_takeover e = Some True
                  then lit ''; '' @ SERVER_NO_CONTEXT_TAKEOVER else [])
               @ (case client_max_window_bits e of
                    Some b \<Rightarrow> lit ''; '' @ CLIENT_MAX_WINDOW_BITS @ lit ''='' @ show_nat (unat b)
                  | None \<Rightarrow> [])
               @ (case server_max_window_bits e of
                    Some b \<Rightarrow> lit ''; '' @ SERVER_MAX_WINDOW_BITS @ lit ''='' @ show_nat (unat b)
                  | None \<Rightarrow> [])
             else [])
          @ [13, 10, 13, 10])"

lemma merge_bits_le:
  "merge_bits s c = Some w \<Longrightarrow> (s = Some x \<longrightarrow> w \<le> x) \<and> (c = Some x \<longrightarrow> w \<le> x)"
  by (auto simp: merge_bits_def split: option.splits)

section \<open>Configuration (config.rs)\<close>

record web_socket_config =
  max_frame_size :: "nat option"
  max_message_size :: "nat option"
  ws_extensions :: "extensions option"

definition default_web_socket_config :: web_socket_config where
  "default_web_socket_config =
     \<lparr>max_frame_size = Some (push_bit 20 16), max_message_size = Some (push_bit 20 64),
      ws_extensions = None\<rparr>"

text \<open>\<open>'tls\<close> stands for rustls' server configuration.\<close>

record 'tls server_config =
  server_web_socket_config :: "web_socket_config option"
  tls_config :: "'tls option"

record client_config =
  client_web_socket_config :: web_socket_config
  ca_file :: "rstring option"

definition default_server_config :: "'tls server_config" where
  "default_server_config = \<lparr>server_web_socket_config = None, tls_config = None\<rparr>"

definition default_client_config :: client_config where
  "default_client_config =
     \<lparr>client_web_socket_config = default_web_socket_config, ca_file = None\<rparr>"

text \<open>The bounds the code compares with: \<open>unwrap_or_default()\<close> turns an absent bound into 0.\<close>

definition frame_limit :: "web_socket_config \<Rightarrow> nat" where
  "frame_limit cfg = unwrap_or 0 (max_frame_size cfg)"

definition message_limit :: "web_socket_config \<Rightarrow> nat" where
  "message_limit cfg = unwrap_or 0 (max_message_size cfg)"

definition deflate_enabled :: "web_socket_config \<Rightarrow> bool" where
  "deflate_enabled cfg = permessage_deflate (unwrap_or default_extensions (ws_extensions cfg))"

section \<open>A written header parses back\<close>

text \<open>The value after \<open>Sec-WebSocket-Extensions: \<close>, as a list of \<open>;\<close>-separated parts.\<close>

definition extension_params :: "extensions \<Rightarrow> rstring list" where
  "extension_params e =
     (if client_no_context_takeover e = Some True then [CLIENT_NO_CONTEXT_TAKEOVER] else [])
   @ (if server_no_context_takeover e = Some True then [SERVER_NO_CONTEXT_TAKEOVER] else [])
   @ (case client_max_window_bits e of
        Some b \<Rightarrow> [CLIENT_MAX_WINDOW_BITS @ lit ''='' @ show_nat (unat b)] | None \<Rightarrow> [])
   @ (case server_max_window_bits e of
        Some b \<Rightarrow> [SERVER_MAX_WINDOW_BITS @ lit ''='' @ show_nat (unat b)] | None \<Rightarrow> [])"

definition extension_value :: "extensions \<Rightarrow> rstring" where
  "extension_value e = PERMESSAGE_DEFLATE @ concat (map (\<lambda>p. lit ''; '' @ p) (extension_params e))"

lemma add_extension_headers_value:
  "permessage_deflate e \<Longrightarrow>
     add_extension_headers request (Some e)
   = request @ lit ''Sec-WebSocket-Extensions: '' @ extension_value e @ [13, 10, 13, 10]"
  by (simp add: add_extension_headers_def extension_value_def extension_params_def
      split: option.split)

lemma split_parts:
  assumes "59 \<notin> set p" "\<forall>q\<in>set ps. 59 \<notin> set q"
  shows "split_char 59 (p @ concat (map (\<lambda>q. lit ''; '' @ q) ps)) = p # map (Cons 32) ps"
  using assms
proof (induction ps arbitrary: p)
  case Nil
  then show ?case by (simp add: split_char_none)
next
  case (Cons q ps)
  then have "split_char 59 ((32 # q) @ concat (map (\<lambda>q. lit ''; '' @ q) ps))
           = (32 # q) # map (Cons 32) ps"
    by (intro Cons.IH) auto
  with Cons.prems(1) show ?case by (simp add: split_char_append)
qed

text \<open>A decimal numeral contains neither separators nor white space.\<close>

lemma show_nat_chars: "c \<in> set (show_nat n) \<Longrightarrow> is_digit c"
  using show_nat_digits [of n] by (simp add: list_all_iff)

lemma show_nat_no_sep [simp]: "59 \<notin> set (show_nat n)" "61 \<notin> set (show_nat n)"
  by (auto dest: show_nat_chars simp: is_digit_def)

lemma last_show_nat: "\<not> is_whitespace (last (show_nat n))"
  using show_nat_chars [OF last_in_set [OF show_nat_nonempty [of n]]]
  by (auto simp: is_digit_def is_whitespace_def)

lemma params_no_sep: "q \<in> set (extension_params e) \<Longrightarrow> 59 \<notin> set q"
  by (auto simp: extension_params_def extension_names split: if_splits option.splits)

lemma trim_named_value:
  assumes "name \<noteq> []" "\<not> is_whitespace (hd name)"
  shows "trim (32 # name @ lit ''='' @ show_nat n) = name @ lit ''='' @ show_nat n"
proof -
  have "trim (name @ lit ''='' @ show_nat n) = name @ lit ''='' @ show_nat n"
    using assms last_show_nat [of n] by (intro trim_id) simp_all
  then show ?thesis by (simp add: is_whitespace_def)
qed

lemma last_part_named_value:
  assumes "61 \<notin> set name"
  shows "last_part (name @ lit ''='' @ show_nat n) = Some (show_nat n)"
  using assms by (simp add: last_part_def split_char_append split_char_none)

lemma parse_part_deflate:
  "parse_part PERMESSAGE_DEFLATE e = Some (e\<lparr>permessage_deflate := True\<rparr>)"
  by (simp add: parse_part_def extension_names trim_def is_whitespace_def)

lemma parse_part_takeover:
  "parse_part (32 # CLIENT_NO_CONTEXT_TAKEOVER) e = Some (e\<lparr>client_no_context_takeover := Some True\<rparr>)"
  "parse_part (32 # SERVER_NO_CONTEXT_TAKEOVER) e = Some (e\<lparr>server_no_context_takeover := Some True\<rparr>)"
  by (simp_all add: parse_part_def extension_names trim_def is_whitespace_def)

lemma parse_part_client_bits:
  "parse_part (32 # CLIENT_MAX_WINDOW_BITS @ lit ''='' @ show_nat (unat b)) e
     = Some (e\<lparr>client_max_window_bits := Some b\<rparr>)"
proof -
  let ?p = "CLIENT_MAX_WINDOW_BITS @ lit ''='' @ show_nat (unat b)"
  have t: "trim (32 # ?p) = ?p"
    by (rule trim_named_value) (simp_all add: extension_names is_whitespace_def)
  have l: "last_part ?p = Some (show_nat (unat b))"
    by (rule last_part_named_value) (simp add: extension_names)
  show ?thesis
    unfolding parse_part_def t l by (simp add: extension_names parse_show_u8)
qed

lemma parse_part_server_bits:
  "parse_part (32 # SERVER_MAX_WINDOW_BITS @ lit ''='' @ show_nat (unat b)) e
     = Some (e\<lparr>server_max_window_bits := Some b\<rparr>)"
proof -
  let ?p = "SERVER_MAX_WINDOW_BITS @ lit ''='' @ show_nat (unat b)"
  have t: "trim (32 # ?p) = ?p"
    by (rule trim_named_value) (simp_all add: extension_names is_whitespace_def)
  have l: "last_part ?p = Some (show_nat (unat b))"
    by (rule last_part_named_value) (simp add: extension_names)
  show ?thesis
    unfolding parse_part_def t l by (simp add: extension_names parse_show_u8)
qed

lemma parse_parts_append:
  "parse_parts (ps @ qs) e =
     (case parse_parts ps e of None \<Rightarrow> None | Some e' \<Rightarrow> parse_parts qs e')"
  by (induction ps arbitrary: e) (simp_all split: option.split)

text \<open>
  What survives the wire: a takeover parameter is written only when it is \<open>Some(true)\<close>, so
  \<open>Some(false)\<close> comes back as \<open>None\<close>.
\<close>

definition advertised :: "extensions \<Rightarrow> extensions" where
  "advertised e = e
     \<lparr>client_no_context_takeover := (if client_no_context_takeover e = Some True then Some True else None),
      server_no_context_takeover := (if server_no_context_takeover e = Some True then Some True else None)\<rparr>"

lemma parse_extension_value:
  assumes "permessage_deflate e"
  shows "parse_extensions (extension_value e) = Some (advertised e)"
proof -
  have s: "split_char 59 (extension_value e)
      = PERMESSAGE_DEFLATE # map (Cons 32) (extension_params e)"
    unfolding extension_value_def
    by (rule split_parts) (auto simp: extension_names dest: params_no_sep)
  show ?thesis
    unfolding parse_extensions_def s extension_params_def
    using assms
    by (cases e; cases "client_max_window_bits e"; cases "server_max_window_bits e")
       (simp_all add: parse_parts_append parse_part_deflate parse_part_takeover
          parse_part_client_bits [simplified] parse_part_server_bits [simplified] default_extensions_def advertised_def)
qed

text \<open>
  \<^bold>\<open>C28.\<close> The \<open>Sec-WebSocket-Extensions\<close> header the crate writes for an agreed parameter set
  ends the request with one blank line, and its value parses back to the same parameters
  (a takeover flag set to \<open>Some(false)\<close> is simply not advertised).
\<close>

theorem extension_header_roundtrip:
  assumes "permessage_deflate e"
  shows "\<exists>v. add_extension_headers request (Some e)
             = request @ lit ''Sec-WebSocket-Extensions: '' @ v @ [13, 10, 13, 10]
           \<and> parse_extensions v = Some (advertised e)"
  using add_extension_headers_value [OF assms] parse_extension_value [OF assms] by blast

theorem extension_header_roundtrip_witness:
  "\<exists>v. add_extension_headers (lit ''x'') (Some (default_extensions\<lparr>permessage_deflate := True,
          client_max_window_bits := Some 12\<rparr>))
        = lit ''x'' @ lit ''Sec-WebSocket-Extensions: '' @ v @ [13, 10, 13, 10]
      \<and> parse_extensions v
        = Some (default_extensions\<lparr>permessage_deflate := True, client_max_window_bits := Some 12\<rparr>)"
  using extension_header_roundtrip [of "default_extensions\<lparr>permessage_deflate := True,
      client_max_window_bits := Some 12\<rparr>" "lit ''x''"]
  by (simp add: advertised_def default_extensions_def)



text \<open>
  \<open>merge_extensions\<close> takes the client's flag whenever the server names the parameter at
  all: a server configured with \<open>client_no_context_takeover: Some(false)\<close> still agrees to
  \<open>Some(true)\<close>.
\<close>

lemma merge_ignores_server_refusal:
  "client_no_context_takeover
     (the (merge_extensions (Some (s\<lparr>client_no_context_takeover := Some False\<rparr>))
                            (Some (c\<lparr>client_no_context_takeover := Some True\<rparr>)))) = Some True"
  by (simp add: merge_extensions_def option_and_def)

text \<open>
  With extensions that do not ask for compression, the header writer ends the handshake
  with two line ends after the line end that closes the last header: the blank line is
  followed by two stray bytes, which the peer takes for the start of a frame.
\<close>

lemma disabled_extensions_extra_line:
  "\<not> permessage_deflate e \<Longrightarrow>
     add_extension_headers (headers @ [13, 10]) (Some e)
   = add_extension_headers (headers @ [13, 10]) None @ [13, 10]"
  by (simp add: add_extension_headers_def)

end
