(* ===== verification/Runtime.thy ===== *)
theory Runtime
  imports Extensions
begin

text \<open>
  The crate's interface to tokio and to the random source. What these operations do is
  not part of the repository, so they are a parameter of the model: a record of functions
  on a world \<open>'w\<close> (the socket halves, the message channel, the generator). The locales
  state the documented behaviour the crate relies on, in terms of a view of the world; an
  interpretation on a simulated socket with arrival times shows that it can be met.
\<close>

section \<open>The operations used\<close>

record 'w runtime =
  read_exact :: "nat \<Rightarrow> ('w, io_error, bytes) async"
  timeout_read_exact :: "nat \<Rightarrow> nat \<Rightarrow> ('w, elapsed, io_error + bytes) async"
  write_all :: "bytes \<Rightarrow> ('w, io_error, unit) async"
  channel_send :: "error + message \<Rightarrow> ('w, unit, unit) async"
  random_u8 :: "'w \<Rightarrow> u8 \<times> 'w"
  sleep_ms :: "nat \<Rightarrow> 'w \<Rightarrow> 'w"

definition draw_u8 :: "'w runtime \<Rightarrow> ('w, error, u8) async" where
  "draw_u8 R w = (Returns (Inr (fst (random_u8 R w))), snd (random_u8 R w))"

definition sleep :: "'w runtime \<Rightarrow> nat \<Rightarrow> ('w, error, unit) async" where
  "sleep R ms w = (Returns (Inr ()), sleep_ms R ms w)"

section \<open>What the crate relies on\<close>

text \<open>
  A view of the world: the bytes the peer will still send, whether they arrive without
  delay, the bytes written so far, whether writing works, the items sent to the channel
  so far and whether its receiver is alive.
\<close>

record link =
  incoming :: bytes
  punctual :: bool
  outgoing :: bytes
  writable :: bool
  delivered :: "(error + message) list"
  listening :: bool

text \<open>
  Reading: \<open>read_exact\<close> returns exactly the next \<open>n\<close> bytes when the peer sends that many and
  cannot succeed otherwise; under \<open>timeout\<close> the same read always completes, succeeds on
  a peer that does not delay, and yields only bytes the peer sent. Reading touches nothing
  else. \<open>only_input v v'\<close> says that two views agree but for the input side.
\<close>

definition only_input :: "link \<Rightarrow> link \<Rightarrow> bool" where
  "only_input v v' \<longleftrightarrow>
     outgoing v' = outgoing v \<and> writable v' = writable v
     \<and> delivered v' = delivered v \<and> listening v' = listening v"

definition only_output :: "link \<Rightarrow> link \<Rightarrow> bool" where
  "only_output v v' \<longleftrightarrow>
     incoming v' = incoming v \<and> punctual v' = punctual v
     \<and> delivered v' = delivered v \<and> listening v' = listening v"

definition only_channel :: "link \<Rightarrow> link \<Rightarrow> bool" where
  "only_channel v v' \<longleftrightarrow>
     incoming v' = incoming v \<and> punctual v' = punctual v
     \<and> outgoing v' = outgoing v \<and> writable v' = writable v"

lemma only_input_refl [simp]: "only_input v v"
  by (simp add: only_input_def)

lemma only_input_trans: "only_input v v' \<Longrightarrow> only_input v' v'' \<Longrightarrow> only_input v v''"
  by (simp add: only_input_def)

lemma link_eqI:
  "incoming v = incoming v' \<Longrightarrow> punctual v = punctual v' \<Longrightarrow> outgoing v = outgoing v' \<Longrightarrow>
   writable v = writable v' \<Longrightarrow> delivered v = delivered v' \<Longrightarrow> listening v = listening v' \<Longrightarrow>
   v = (v' :: link)"
  by (cases v; cases v') simp

locale byte_source =
  fixes R :: "'w runtime"
    and view :: "'w \<Rightarrow> link"
  assumes read_exact_ok:
      "n \<le> length (incoming (view w)) \<Longrightarrow>
         fst (read_exact R n w) = Returns (Inr (take n (incoming (view w))))"
    and read_exact_rest:
      "n \<le> length (incoming (view w)) \<Longrightarrow>
         incoming (view (snd (read_exact R n w))) = drop n (incoming (view w))"
    and read_exact_punctual:
      "punctual (view w) \<Longrightarrow> punctual (view (snd (read_exact R n w)))"
    and read_exact_short:
      "length (incoming (view w)) < n \<Longrightarrow>
         fst (read_exact R n w) = Hangs \<or> (\<exists>e. fst (read_exact R n w) = Returns (Inl e))"
    and read_exact_frame: "only_input (view w) (view (snd (read_exact R n w)))"
    and timed_completes: "\<exists>r. fst (timeout_read_exact R d n w) = Returns r"
    and timed_ok:
      "punctual (view w) \<Longrightarrow> n \<le> length (incoming (view w)) \<Longrightarrow>
         fst (timeout_read_exact R d n w) = Returns (Inr (Inr (take n (incoming (view w)))))"
    and timed_sound:
      "fst (timeout_read_exact R d n w) = Returns (Inr (Inr bs)) \<Longrightarrow>
         n \<le> length (incoming (view w)) \<and> bs = take n (incoming (view w))
         \<and> incoming (view (snd (timeout_read_exact R d n w))) = drop n (incoming (view w))"
    and timed_punctual:
      "punctual (view w) \<Longrightarrow> punctual (view (snd (timeout_read_exact R d n w)))"
    and timed_frame: "only_input (view w) (view (snd (timeout_read_exact R d n w)))"
begin

text \<open>On a punctual peer a read is determined by the view.\<close>

lemma read_exact_view:
  assumes "punctual (view w)" "n \<le> length (incoming (view w))"
  shows "view (snd (read_exact R n w)) = (view w)\<lparr>incoming := drop n (incoming (view w))\<rparr>"
  using assms read_exact_rest [of n w] read_exact_punctual [of w n] read_exact_frame [of w n]
  by (intro link_eqI) (simp_all add: only_input_def)

lemma timed_view:
  assumes "punctual (view w)" "n \<le> length (incoming (view w))"
  shows "view (snd (timeout_read_exact R d n w))
       = (view w)\<lparr>incoming := drop n (incoming (view w))\<rparr>"
  using assms timed_sound [OF timed_ok [OF assms, of d]] timed_punctual [of w d n]
    timed_frame [of w d n]
  by (intro link_eqI) (simp_all add: only_input_def)

end

text \<open>Writing: on a working socket \<open>write_all\<close> appends all the bytes; in any case it touches
  only the output side. Drawing random bytes and sleeping leave the connection as it is.\<close>

locale byte_sink =
  fixes R :: "'w runtime"
    and view :: "'w \<Rightarrow> link"
  assumes write_all_ok: "writable (view w) \<Longrightarrow> fst (write_all R bs w) = Returns (Inr ())"
    and write_all_outgoing:
      "writable (view w) \<Longrightarrow>
         outgoing (view (snd (write_all R bs w))) = outgoing (view w) @ bs
         \<and> writable (view (snd (write_all R bs w)))"
    and write_all_frame: "only_output (view w) (view (snd (write_all R bs w)))"
    and random_view: "view (snd (random_u8 R w)) = view w"
    and sleep_view: "view (sleep_ms R ms w) = view w"
begin

lemma write_all_view:
  assumes "writable (view w)"
  shows "view (snd (write_all R bs w)) = (view w)\<lparr>outgoing := outgoing (view w) @ bs\<rparr>"
  using assms write_all_outgoing [of w bs] write_all_frame [of w bs]
  by (intro link_eqI) (simp_all add: only_output_def)

end

text \<open>
  The channel: sending to a live receiver delivers the item after the earlier ones, and a
  send that fails delivers nothing.
\<close>

locale outbox =
  fixes R :: "'w runtime"
    and view :: "'w \<Rightarrow> link"
  assumes channel_send_ok: "listening (view w) \<Longrightarrow> fst (channel_send R m w) = Returns (Inr ())"
    and channel_send_delivered:
      "fst (channel_send R m w) = Returns (Inr ()) \<Longrightarrow>
         delivered (view (snd (channel_send R m w))) = delivered (view w) @ [m]"
    and channel_send_failed:
      "fst (channel_send R m w) \<noteq> Returns (Inr ()) \<Longrightarrow>
         delivered (view (snd (channel_send R m w))) = delivered (view w)"
    and channel_send_listening:
      "listening (view w) \<Longrightarrow> listening (view (snd (channel_send R m w)))"
    and channel_send_frame: "only_channel (view w) (view (snd (channel_send R m w)))"
begin

lemma channel_send_view:
  assumes "listening (view w)"
  shows "view (snd (channel_send R m w)) = (view w)\<lparr>delivered := delivered (view w) @ [m]\<rparr>"
  using assms channel_send_delivered [OF channel_send_ok [OF assms, of m]]
    channel_send_listening [of w m] channel_send_frame [of w m]
  by (intro link_eqI) (simp_all add: only_channel_def)

end

locale connection = byte_source + byte_sink + outbox

section \<open>A simulated connection\<close>

text \<open>
  A socket whose peer has scheduled its bytes: each with the millisecond it arrives, then
  either the end of the stream or silence. \<open>read_exact\<close> waits for the bytes it needs;
  under a deadline it gives up when the next byte arrives too late.
\<close>

datatype stream_end = EndOfStream | Silence

record sim =
  clock :: nat
  arrivals :: "(nat \<times> u8) list"
  stream_end :: stream_end
  sent :: bytes
  write_works :: bool
  mailbox :: "(error + message) list"
  mailbox_open :: bool
  seed :: nat
  deadline :: nat

definition arrival_time :: "nat \<Rightarrow> (nat \<times> u8) list \<Rightarrow> nat" where
  "arrival_time t as = fold max (map fst as) t"

definition sim_read_exact :: "nat \<Rightarrow> (sim, io_error, bytes) async" where
  "sim_read_exact n w =
     (if n \<le> length (arrivals w) then
        (Returns (Inr (map snd (take n (arrivals w)))),
         w\<lparr>arrivals := drop n (arrivals w),
           clock := arrival_time (clock w) (take n (arrivals w))\<rparr>)
      else case stream_end w of
             EndOfStream \<Rightarrow>
               (Returns (Inl UnexpectedEof),
                w\<lparr>arrivals := [], clock := arrival_time (clock w) (arrivals w)\<rparr>)
           | Silence \<Rightarrow> (Hangs, w))"

definition sim_timeout_read_exact :: "nat \<Rightarrow> nat \<Rightarrow> (sim, elapsed, io_error + bytes) async" where
  "sim_timeout_read_exact secs n w =
     (let limit = clock w + 1000 * secs in
      if n \<le> length (arrivals w) \<and> arrival_time (clock w) (take n (arrivals w)) \<le> limit then
        (Returns (Inr (Inr (map snd (take n (arrivals w))))),
         w\<lparr>arrivals := drop n (arrivals w),
           clock := arrival_time (clock w) (take n (arrivals w))\<rparr>)
      else if length (arrivals w) < n \<and> stream_end w = EndOfStream
              \<and> arrival_time (clock w) (arrivals w) \<le> limit then
        (Returns (Inr (Inl UnexpectedEof)),
         w\<lparr>arrivals := [], clock := arrival_time (clock w) (arrivals w)\<rparr>)
      else (Returns (Inl Elapsed), w\<lparr>clock := limit\<rparr>))"

definition sim_write_all :: "bytes \<Rightarrow> (sim, io_error, unit) async" where
  "sim_write_all bs w =
     (if write_works w then (Returns (Inr ()), w\<lparr>sent := sent w @ bs\<rparr>)
      else (Returns (Inl BrokenPipe), w))"

definition sim_channel_send :: "error + message \<Rightarrow> (sim, unit, unit) async" where
  "sim_channel_send m w =
     (if mailbox_open w then (Returns (Inr ()), w\<lparr>mailbox := mailbox w @ [m]\<rparr>)
      else (Returns (Inl ()), w))"

definition sim_random_u8 :: "sim \<Rightarrow> u8 \<times> sim" where
  "sim_random_u8 w = (byte (seed w), w\<lparr>seed := (seed w * 205 + 77) mod 65536\<rparr>)"

definition sim_sleep_ms :: "nat \<Rightarrow> sim \<Rightarrow> sim" where
  "sim_sleep_ms ms w = w\<lparr>clock := clock w + ms\<rparr>"

definition sim_runtime :: "sim runtime" where
  "sim_runtime =
     \<lparr>read_exact = sim_read_exact, timeout_read_exact = sim_timeout_read_exact,
      write_all = sim_write_all, channel_send = sim_channel_send,
      random_u8 = sim_random_u8, sleep_ms = sim_sleep_ms\<rparr>"

text \<open>
  The peer is punctual when everything it still sends is there at time 0: no read waits.
\<close>

definition sim_view :: "sim \<Rightarrow> link" where
  "sim_view w =
     \<lparr>incoming = map snd (arrivals w),
      punctual = list_all (\<lambda>a. fst a = 0) (arrivals w),
      outgoing = sent w, writable = write_works w,
      delivered = mailbox w, listening = mailbox_open w\<rparr>"

lemmas sim_defs =
  sim_runtime_def sim_view_def sim_read_exact_def sim_timeout_read_exact_def sim_write_all_def
  sim_channel_send_def sim_random_u8_def sim_sleep_ms_def

lemma arrival_time_zero: "list_all (\<lambda>a. fst a = 0) as \<Longrightarrow> arrival_time t as = t"
  by (induction as) (simp_all add: arrival_time_def)

lemma list_all_drop: "list_all P xs \<Longrightarrow> list_all P (drop n xs)"
  by (auto simp: list_all_iff dest: in_set_dropD)

lemma list_all_take: "list_all P xs \<Longrightarrow> list_all P (take n xs)"
  by (auto simp: list_all_iff dest: in_set_takeD)

interpretation sim_source: byte_source sim_runtime sim_view
proof unfold_locales
  fix n and w :: sim
  assume "n \<le> length (incoming (sim_view w))"
  then show "fst (read_exact sim_runtime n w) = Returns (Inr (take n (incoming (sim_view w))))"
    and "incoming (sim_view (snd (read_exact sim_runtime n w))) = drop n (incoming (sim_view w))"
    by (simp_all add: sim_defs take_map drop_map)
next
  fix n and w :: sim
  show "only_input (sim_view w) (sim_view (snd (read_exact sim_runtime n w)))"
    by (simp add: sim_defs only_input_def split: stream_end.split)
  assume "punctual (sim_view w)"
  then show "punctual (sim_view (snd (read_exact sim_runtime n w)))"
    by (simp add: sim_defs list_all_drop split: stream_end.split)
next
  fix n and w :: sim
  assume "length (incoming (sim_view w)) < n"
  then show "fst (read_exact sim_runtime n w) = Hangs
      \<or> (\<exists>e. fst (read_exact sim_runtime n w) = Returns (Inl e))"
    by (simp add: sim_defs split: stream_end.split)
next
  fix d n and w :: sim
  show "\<exists>r. fst (timeout_read_exact sim_runtime d n w) = Returns r"
    by (simp add: sim_defs Let_def)
  show "only_input (sim_view w) (sim_view (snd (timeout_read_exact sim_runtime d n w)))"
    by (simp add: sim_defs only_input_def Let_def)
  assume p: "punctual (sim_view w)"
  then show "punctual (sim_view (snd (timeout_read_exact sim_runtime d n w)))"
    by (simp add: sim_defs Let_def list_all_drop)
  assume "n \<le> length (incoming (sim_view w))"
  with p show "fst (timeout_read_exact sim_runtime d n w)
      = Returns (Inr (Inr (take n (incoming (sim_view w)))))"
    by (simp add: sim_defs Let_def arrival_time_zero list_all_take take_map)
next
  fix d n bs and w :: sim
  assume "fst (timeout_read_exact sim_runtime d n w) = Returns (Inr (Inr bs))"
  then show "n \<le> length (incoming (sim_view w)) \<and> bs = take n (incoming (sim_view w))
      \<and> incoming (sim_view (snd (timeout_read_exact sim_runtime d n w)))
          = drop n (incoming (sim_view w))"
    by (auto simp: sim_defs Let_def take_map drop_map split: if_splits)
qed

interpretation sim_sink: byte_sink sim_runtime sim_view
  by unfold_locales (simp_all add: sim_defs only_output_def)

interpretation sim_outbox: outbox sim_runtime sim_view
  by unfold_locales (simp_all add: sim_defs only_channel_def split: if_splits)

interpretation sim: connection sim_runtime sim_view
  by unfold_locales

text \<open>A peer that has sent \<open>bs\<close> and closed its side; a peer that has sent \<open>bs\<close> and stays silent.\<close>

definition sim_peer :: "bytes \<Rightarrow> sim" where
  "sim_peer bs =
     \<lparr>clock = 0, arrivals = map (Pair 0) bs, stream_end = EndOfStream, sent = [],
      write_works = True, mailbox = [], mailbox_open = True, seed = 0, deadline = 0\<rparr>"

definition sim_silent :: "bytes \<Rightarrow> sim" where
  "sim_silent bs = (sim_peer bs)\<lparr>stream_end := Silence\<rparr>"

lemma sim_peer_view [simp]:
  "incoming (sim_view (sim_peer bs)) = bs" "punctual (sim_view (sim_peer bs))"
  "outgoing (sim_view (sim_peer bs)) = []" "writable (sim_view (sim_peer bs))"
  "delivered (sim_view (sim_peer bs)) = []" "listening (sim_view (sim_peer bs))"
  by (simp_all add: sim_view_def sim_peer_def comp_def list_all_iff)

end
