(* ===== verification/Writer.thy ===== *)
theory Writer
  imports Runtime
begin

text \<open>
  \<open>src/write.rs\<close>: the writer that puts one frame on the wire, unmasked for a server and
  masked for a client, and the frame format of RFC 6455 section 5.2 it implements, stated
  arithmetically and without reference to how the code builds it.
\<close>

section \<open>The writer (write.rs)\<close>

datatype writer_kind = Client | Server

record writer =
  kind :: writer_kind

definition wr :: "'w runtime \<Rightarrow> bytes \<Rightarrow> ('w, error, unit) async" where
  "wr R bs = map_err IOError (write_all R bs)"

definition first_byte :: "frame \<Rightarrow> bool \<Rightarrow> u8" where
  "first_byte fr set_rsv1 =
     (let b = push_bit 7 (of_bool (final_fragment fr)) OR as_u8 (opcode fr)
      in if set_rsv1 then b OR 0x40 else b)"

definition write_frame_server :: "'w runtime \<Rightarrow> frame \<Rightarrow> bool \<Rightarrow> ('w, error, unit) async" where
  "write_frame_server R fr set_rsv1 =
     (let payload_len = length (payload fr) in
      await (wr R [first_byte fr set_rsv1]) (\<lambda>_.
      await (if payload_len \<le> 125 then wr R [byte payload_len]
             else if payload_len \<le> 65535 then
               wr R [126, byte (drop_bit 8 payload_len), byte payload_len]
             else wr R (127 # be_bytes 8 payload_len)) (\<lambda>_.
      wr R (payload fr))))"

text \<open>The masking loop: byte \<open>i\<close> is combined with \<open>mask[i % 4]\<close>.\<close>

fun mask_from :: "bytes \<Rightarrow> nat \<Rightarrow> bytes \<Rightarrow> bytes" where
  "mask_from key i [] = []"
| "mask_from key i (b # bs) = (b XOR key ! (i mod 4)) # mask_from key (Suc i) bs"

definition write_frame_client :: "'w runtime \<Rightarrow> frame \<Rightarrow> bool \<Rightarrow> ('w, error, unit) async" where
  "write_frame_client R fr set_rsv1 =
     await (draw_u8 R) (\<lambda>m0. await (draw_u8 R) (\<lambda>m1.
     await (draw_u8 R) (\<lambda>m2. await (draw_u8 R) (\<lambda>m3.
     let key = [m0, m1, m2, m3]; payload_len = length (payload fr) in
     await (wr R [first_byte fr set_rsv1]) (\<lambda>_.
     await (if payload_len \<le> 125 then
              await (wr R [0x80 OR byte payload_len]) (\<lambda>_. wr R key)
            else if payload_len \<le> 65535 then
              await (wr R [126 OR 0x80, byte (drop_bit 8 payload_len), byte payload_len]) (\<lambda>_.
                wr R key)
            else await (wr R ((127 OR 0x80) # be_bytes 8 payload_len)) (\<lambda>_. wr R key)) (\<lambda>_.
     wr R (mask_from key 0 (payload fr))))))))"

definition write_frame :: "'w runtime \<Rightarrow> writer \<Rightarrow> frame \<Rightarrow> bool \<Rightarrow> ('w, error, unit) async" where
  "write_frame R wtr fr set_rsv1 =
     (case kind wtr of
        Client \<Rightarrow> write_frame_client R fr set_rsv1
      | Server \<Rightarrow> write_frame_server R fr set_rsv1)"

section \<open>The frame format\<close>

text \<open>
  A frame on the wire: a byte with FIN, RSV1 and the opcode, the mask flag with a 7-bit
  length or one of the escapes 126 (two more bytes) and 127 (eight more bytes), the masking
  key if there is one, and the payload, masked with the key.
\<close>

definition head_byte :: "bool \<Rightarrow> bool \<Rightarrow> op_code \<Rightarrow> u8" where
  "head_byte fin rsv1 op =
     byte ((if fin then 128 else 0) + (if rsv1 then 64 else 0) + unat (as_u8 op))"

definition length_field :: "bool \<Rightarrow> nat \<Rightarrow> bytes" where
  "length_field masked n =
     (let m = (if masked then 128 else 0) in
      if n \<le> 125 then [byte (m + n)]
      else if n \<le> 65535 then byte (m + 126) # be_bytes 2 n
      else byte (m + 127) # be_bytes 8 n)"

definition mask_payload :: "bytes option \<Rightarrow> bytes \<Rightarrow> bytes" where
  "mask_payload key p =
     (case key of None \<Rightarrow> p | Some k \<Rightarrow> map (\<lambda>i. p ! i XOR k ! (i mod 4)) [0..<length p])"

definition wire_frame :: "bytes option \<Rightarrow> bool \<Rightarrow> bool \<Rightarrow> op_code \<Rightarrow> bytes \<Rightarrow> bytes" where
  "wire_frame key fin rsv1 op p =
     head_byte fin rsv1 op # length_field (key \<noteq> None) (length p)
       @ unwrap_or [] key @ mask_payload key p"

definition key_ok :: "bytes option \<Rightarrow> bool" where
  "key_ok key \<longleftrightarrow> (case key of None \<Rightarrow> True | Some k \<Rightarrow> length k = 4)"

lemma key_ok_simps [simp]: "key_ok None" "key_ok (Some k) \<longleftrightarrow> length k = 4"
  by (simp_all add: key_ok_def)

section \<open>The code computes this format\<close>

lemma mask_from_nth: "mask_from k i p = map (\<lambda>j. p ! j XOR k ! ((i + j) mod 4)) [0..<length p]"
proof (induction p arbitrary: i)
  case Nil
  then show ?case by simp
next
  case (Cons b p)
  have "map (\<lambda>j. (b # p) ! j XOR k ! ((i + j) mod 4)) [0..<length (b # p)]
      = (b XOR k ! (i mod 4)) # map (\<lambda>j. p ! j XOR k ! ((Suc i + j) mod 4)) [0..<length p]"
    by (simp add: upt_conv_Cons map_Suc_upt [symmetric] del: upt_Suc)
  with Cons show ?case by simp
qed

lemma mask_from_payload: "mask_from k 0 p = mask_payload (Some k) p"
  by (simp add: mask_from_nth mask_payload_def)

lemma length_mask_from [simp]: "length (mask_from k i p) = length p"
  by (induction p arbitrary: i) simp_all

text \<open>Masking twice with the same key gives the payload back.\<close>

lemma mask_from_involutive: "mask_from k i (mask_from k i p) = p"
  by (induction p arbitrary: i) (simp_all add: xor.assoc)

lemma mask_payload_None [simp]: "mask_payload None p = p"
  by (simp add: mask_payload_def)

lemma mask_from_mask_payload [simp]: "mask_from k 0 (mask_payload (Some k) p) = p"
  by (simp add: mask_from_payload [symmetric] mask_from_involutive)

lemma length_mask_payload [simp]: "length (mask_payload key p) = length p"
  by (simp add: mask_payload_def split: option.split)

lemma first_byte_head: "first_byte fr set_rsv1 = head_byte (final_fragment fr) set_rsv1 (opcode fr)"
  by (cases "opcode fr"; cases "final_fragment fr"; cases set_rsv1)
     (simp_all add: first_byte_def head_byte_def as_u8_def byte_def)

lemma or_mask_bit: "n < 128 \<Longrightarrow> 0x80 OR byte n = byte (128 + n)"
proof -
  assume "n < 128"
  moreover have "\<forall>n \<in> set [0..<128]. (0x80 :: u8) OR byte n = byte (128 + n)"
    by code_simp
  ultimately show ?thesis by simp
qed

lemma be_bytes_2: "be_bytes 2 n = [byte (drop_bit 8 n), byte n]"
  unfolding numeral_2_eq_2 by (simp add: drop_bit_eq_div)

lemma length_field_code:
  "n \<le> 125 \<Longrightarrow> length_field False n = [byte n]"
  "\<not> n \<le> 125 \<Longrightarrow> n \<le> 65535 \<Longrightarrow> length_field False n = [126, byte (drop_bit 8 n), byte n]"
  "\<not> n \<le> 65535 \<Longrightarrow> length_field False n = 127 # be_bytes 8 n"
  "n \<le> 125 \<Longrightarrow> length_field True n = [0x80 OR byte n]"
  "\<not> n \<le> 125 \<Longrightarrow> n \<le> 65535 \<Longrightarrow> length_field True n = [254, byte (drop_bit 8 n), byte n]"
  "\<not> n \<le> 65535 \<Longrightarrow> length_field True n = 255 # be_bytes 8 n"
  by (simp_all add: length_field_def be_bytes_2 byte_def or_mask_bit [unfolded byte_def])

text \<open>The masking key a writer uses: the next four random bytes on a client, none on a server.\<close>

definition drawn_key :: "'w runtime \<Rightarrow> 'w \<Rightarrow> bytes" where
  "drawn_key R w =
     (let (m0, w1) = random_u8 R w; (m1, w2) = random_u8 R w1; (m2, w3) = random_u8 R w2;
          (m3, w4) = random_u8 R w3 in [m0, m1, m2, m3])"

definition frame_key :: "'w runtime \<Rightarrow> writer \<Rightarrow> 'w \<Rightarrow> bytes option" where
  "frame_key R wtr w = (case kind wtr of Client \<Rightarrow> Some (drawn_key R w) | Server \<Rightarrow> None)"

lemma frame_key_ok [simp]: "key_ok (frame_key R wtr w)"
  by (simp add: frame_key_def drawn_key_def split: writer_kind.split prod.split)

context byte_sink
begin

lemma wr_ok [run]: "writable (view w) \<Longrightarrow> fst (wr R bs w) = Returns (Inr ())"
  by (simp add: wr_def run write_all_ok)

lemma wr_view [run]:
  "writable (view w) \<Longrightarrow> view (snd (wr R bs w)) = (view w)\<lparr>outgoing := outgoing (view w) @ bs\<rparr>"
  by (simp add: wr_def run write_all_view)

lemma draw_run [run]:
  "fst (draw_u8 R w) = Returns (Inr (fst (random_u8 R w)))" "view (snd (draw_u8 R w)) = view w"
  by (simp_all add: draw_u8_def random_view)

lemma write_frame_server_wire:
  assumes "writable (view w)"
  shows "fst (write_frame_server R fr rsv1 w) = Returns (Inr ())
       \<and> view (snd (write_frame_server R fr rsv1 w)) = (view w)\<lparr>outgoing := outgoing (view w)
           @ wire_frame None (final_fragment fr) rsv1 (opcode fr) (payload fr)\<rparr>"
  using assms
  by (simp add: write_frame_server_def Let_def run first_byte_head wire_frame_def mask_payload_def
      length_field_code)

lemma write_frame_client_wire:
  assumes "writable (view w)"
  shows "fst (write_frame_client R fr rsv1 w) = Returns (Inr ())
       \<and> view (snd (write_frame_client R fr rsv1 w)) = (view w)\<lparr>outgoing := outgoing (view w)
           @ wire_frame (Some (drawn_key R w)) (final_fragment fr) rsv1 (opcode fr) (payload fr)\<rparr>"
  using assms
  by (simp add: write_frame_client_def Let_def run first_byte_head wire_frame_def mask_from_payload
      length_field_code drawn_key_def draw_u8_def random_view case_prod_beta)

lemma write_frame_wire:
  assumes "writable (view w)"
  shows "fst (write_frame R wtr fr rsv1 w) = Returns (Inr ())"
    and "view (snd (write_frame R wtr fr rsv1 w)) = (view w)\<lparr>outgoing := outgoing (view w)
           @ wire_frame (frame_key R wtr w) (final_fragment fr) rsv1 (opcode fr) (payload fr)\<rparr>"
  using write_frame_client_wire [OF assms, of fr rsv1] write_frame_server_wire [OF assms, of fr rsv1]
  by (simp_all add: write_frame_def frame_key_def split: writer_kind.split)

end

section \<open>Properties\<close>

text \<open>
  \<^bold>\<open>C23.\<close> The shifts, masks and branches of \<open>write.rs\<close> compute the frame format of RFC 6455
  section 5.2: one frame is put on the wire, masked with a fresh four-byte key by a client and
  unmasked by a server, with the shortest of the three length encodings.
\<close>

theorem write_frame_format:
  assumes "byte_sink R view" "writable (view w)" "write_frame R wtr fr rsv1 w = (r, w')"
  shows "r = Returns (Inr ()) \<and> (\<exists>key. key_ok key \<and> (key = None \<longleftrightarrow> kind wtr = Server)
    \<and> view w' = (view w)\<lparr>outgoing := outgoing (view w)
        @ wire_frame key (final_fragment fr) rsv1 (opcode fr) (payload fr)\<rparr>)"
  using byte_sink.write_frame_wire [OF assms(1,2), of wtr fr rsv1] assms(3)
  by (intro conjI exI [of _ "frame_key R wtr w"]) (auto simp: frame_key_def drawn_key_def split: writer_kind.splits prod.split)

theorem write_frame_format_witness:
  "sent (snd (write_frame sim_runtime \<lparr>kind = Server\<rparr>
     \<lparr>final_fragment = True, opcode = op_code.Binary, payload = [1, 2], compressed = False\<rparr> True (sim_peer [])))
   = [0xC2, 2, 1, 2]"
proof -
  let ?fr = "\<lparr>final_fragment = True, opcode = op_code.Binary, payload = [1, 2], compressed = False\<rparr>"
  obtain r w' where w: "write_frame sim_runtime \<lparr>kind = Server\<rparr> ?fr True (sim_peer []) = (r, w')"
    by (metis surj_pair)
  have "wire_frame None True True op_code.Binary [1, 2] = [0xC2, 2, 1, 2]" by code_simp
  with write_frame_format [OF sim_sink.byte_sink_axioms sim_peer_view(4) w] w
  show ?thesis by (auto simp: sim_view_def sim_peer_def)
qed

end
