(* ===== verification/Decoder.thy ===== *)
theory Decoder
  imports Frame
begin

text \<open>
  \<open>src/decoder.rs\<close>: decompression of one message. The streaming decompressor of flate2 is
  a parameter (\<open>inflater\<close>); the locale \<open>inflate_stream\<close> states what the loop relies on, and
  under it the loop ends and returns the whole payload.
\<close>

section \<open>flate2's decompressor\<close>

text \<open>
  \<open>decompress_vec I xs n d\<close> is \<open>d.decompress_vec(xs, out, Sync)\<close> for an output vector with
  \<open>n\<close> bytes of spare capacity: the status and the bytes appended, and the new state.
  \<open>new_inflater\<close> is \<open>None\<close> where the constructor panics.
\<close>

datatype status = Ok | BufError | StreamEnd

record 'd inflater =
  d_total_in :: "'d \<Rightarrow> nat"
  decompress_vec :: "bytes \<Rightarrow> nat \<Rightarrow> 'd \<Rightarrow> (io_error + status \<times> bytes) \<times> 'd"
  d_reset :: "'d \<Rightarrow> 'd"
  new_inflater :: "u8 option \<Rightarrow> 'd option"

section \<open>The decoder (decoder.rs)\<close>

definition calculate_buffer_size :: "nat \<Rightarrow> nat" where
  "calculate_buffer_size payload_size =
     (if payload_size \<le> 4096 then 4096
      else if payload_size \<le> 65536 then 16384
      else 65536)"

record 'd decoder =
  decompressor :: 'd
  d_reset_context :: bool

definition DEFLATE_TRAILER :: bytes where
  "DEFLATE_TRAILER = [0, 0, 255, 255]"

definition new_decoder :: "'d inflater \<Rightarrow> bool \<Rightarrow> u8 option \<Rightarrow> 'd decoder option" where
  "new_decoder I reset_context window_bits =
     map_option (\<lambda>d. \<lparr>decompressor = d, d_reset_context = reset_context\<rparr>)
       (new_inflater I window_bits)"

text \<open>
  The loop: \<open>buffer\<close> holds what a call appended and is moved to the result and cleared only
  after a call that reports \<open>Ok\<close>. \<open>None\<close> is a loop that does not end.
\<close>

partial_function (option) decompress_loop ::
  "'d inflater \<Rightarrow> nat \<Rightarrow> nat \<Rightarrow> bytes \<Rightarrow> 'd \<Rightarrow> bytes \<Rightarrow> bytes \<Rightarrow> ((io_error + bytes) \<times> 'd) option" where
  "decompress_loop I before_in buffer_size data d buffer decompressed_data =
     (if d_total_in I d - before_in < length data then
        (case decompress_vec I (drop (d_total_in I d - before_in) data)
                (buffer_size - length buffer) d of
           (Inl e, d') \<Rightarrow> Some (Inl e, d')
         | (Inr (st, out), d') \<Rightarrow>
             (case st of
                Ok \<Rightarrow> decompress_loop I before_in buffer_size data d' []
                       (decompressed_data @ buffer @ out)
              | StreamEnd \<Rightarrow> Some (Inr decompressed_data, d')
              | BufError \<Rightarrow> decompress_loop I before_in buffer_size data d' (buffer @ out)
                       decompressed_data))
      else Some (Inr decompressed_data, d))"

declare decompress_loop.simps [code]

definition decompress :: "'d inflater \<Rightarrow> bytes \<Rightarrow> ('d decoder, io_error, bytes) async" where
  "decompress I payload_bytes dec =
     (let data = payload_bytes @ DEFLATE_TRAILER;
          buffer_size = calculate_buffer_size (length data);
          d0 = (if d_reset_context dec then d_reset I (decompressor dec) else decompressor dec);
          before_in = d_total_in I d0
      in case decompress_loop I before_in buffer_size data d0 [] [] of
           None \<Rightarrow> (Hangs, dec)
         | Some (r, d') \<Rightarrow> (Returns r, dec\<lparr>decompressor := d'\<rparr>))"

lemma calculate_buffer_size_pos [simp]: "0 < calculate_buffer_size n"
  by (simp add: calculate_buffer_size_def)

section \<open>What the loop relies on\<close>

text \<open>
  \<open>decodes d xs p d'\<close>: in state \<open>d\<close> the compressed bytes \<open>xs\<close> carry the payload \<open>p\<close> and leave
  the state \<open>d'\<close>. A call with some input and some room reports \<open>Ok\<close>, makes progress (it
  consumes input or produces output), counts what it consumed, and leaves the rest of the
  payload to the rest of the input; when the input, which ends in the sync marker, is used
  up, nothing is held back.
\<close>

locale inflate_stream =
  fixes I :: "'d inflater"
    and decodes :: "'d \<Rightarrow> bytes \<Rightarrow> bytes \<Rightarrow> 'd \<Rightarrow> bool"
  assumes decompress_vec_step:
      "decodes d xs p d' \<Longrightarrow> xs \<noteq> [] \<Longrightarrow> 0 < room \<Longrightarrow>
         \<exists>k out p' d1. decompress_vec I xs room d = (Inr (Ok, out), d1)
           \<and> k \<le> length xs \<and> d_total_in I d1 = d_total_in I d + k \<and> (0 < k \<or> out \<noteq> [])
           \<and> p = out @ p' \<and> decodes d1 (drop k xs) p' d'"
    and drained: "decodes d [] p d' \<Longrightarrow> p = [] \<and> d' = d"
begin

lemma decompress_loop_decodes:
  assumes "decodes d (drop i data) p d'" "d_total_in I d = before_in + i"
    "i \<le> length data" "0 < buffer_size"
  shows "decompress_loop I before_in buffer_size data d [] acc = Some (Inr (acc @ p), d')"
  using assms
proof (induction "length data - i + length p" arbitrary: d i p acc rule: less_induct)
  case less
  show ?case
  proof (cases "i < length data")
    case False
    with less.prems(1,3) drained [of d p d'] have "p = []" "d' = d" by simp_all
    with False less.prems(2) show ?thesis
      by (subst decompress_loop.simps) simp
  next
    case True
    then have "drop i data \<noteq> []" by simp
    from decompress_vec_step [OF less.prems(1) this less.prems(4)]
    obtain k out p' d1 where call:
      "decompress_vec I (drop i data) buffer_size d = (Inr (Ok, out), d1)"
      and k: "k \<le> length data - i" "0 < k \<or> out \<noteq> []"
      and t: "d_total_in I d1 = before_in + (i + k)"
      and p: "p = out @ p'" and rest: "decodes d1 (drop (i + k) data) p' d'"
      by (auto simp: less.prems(2) add.commute)
    have "length data - (i + k) + length p' < length data - i + length p"
      using k True by (cases out) (simp_all add: p)
    from less.hyps [OF this rest t _ less.prems(4), of "acc @ out"] k True
    have "decompress_loop I before_in buffer_size data d1 [] (acc @ out)
        = Some (Inr ((acc @ out) @ p'), d')" by simp
    with True less.prems(2) call show ?thesis
      by (subst decompress_loop.simps) (simp add: p)
  qed
qed

text \<open>A message that the decompressor decodes is returned whole.\<close>

lemma decompress_decodes:
  assumes "decodes (if d_reset_context dec then d_reset I (decompressor dec) else decompressor dec)
             (z @ DEFLATE_TRAILER) p d'"
  shows "decompress I z dec = (Returns (Inr p), dec\<lparr>decompressor := d'\<rparr>)"
proof -
  let ?d = "if d_reset_context dec then d_reset I (decompressor dec) else decompressor dec"
  have "decompress_loop I (d_total_in I ?d) (calculate_buffer_size (length (z @ DEFLATE_TRAILER)))
          (z @ DEFLATE_TRAILER) ?d [] [] = Some (Inr ([] @ p), d')"
    by (rule decompress_loop_decodes [where i = 0]) (use assms in simp_all)
  then show ?thesis by (simp add: decompress_def Let_def)
qed

end

section \<open>Properties\<close>


text \<open>A decompressor for one final stored block, header byte 1.\<close>

definition final_inflater :: "nat inflater" where
  "final_inflater =
     \<lparr>d_total_in = id,
      decompress_vec = (\<lambda>xs room t.
        if 5 \<le> length xs \<and> xs ! 0 = 1 \<and> 5 + unat (xs ! 1) \<le> length xs
        then (Inr (StreamEnd, take (unat (xs ! 1)) (drop 5 xs)), t + 5 + unat (xs ! 1))
        else (Inl InvalidInput, t)),
      d_reset = (\<lambda>_. 0), new_inflater = (\<lambda>_. Some 0)\<rparr>"


end
