(* ===== verification/Encoder.thy ===== *)
theory Encoder
  imports Decoder
begin

text \<open>
  \<open>src/encoder.rs\<close>: compression of one message, with the sync marker cut off its end. The
  streaming compressor of flate2 is a parameter (\<open>deflater\<close>); the locale \<open>deflate_stream\<close>
  states what the two loops rely on.
\<close>

section \<open>flate2's compressor and the output vector\<close>

record 'c deflater =
  c_total_in :: "'c \<Rightarrow> nat"
  compress_vec :: "bytes \<Rightarrow> nat \<Rightarrow> 'c \<Rightarrow> (io_error + status \<times> bytes) \<times> 'c"
  c_reset :: "'c \<Rightarrow> 'c"
  new_deflater :: "u8 option \<Rightarrow> 'c option"

text \<open>
  \<open>Vec::reserve\<close> on a vector of bytes with length \<open>len\<close> and capacity \<open>cap\<close>: the new capacity.
  It grows only when the room is short, and then at least doubles.
\<close>

definition reserve :: "nat \<Rightarrow> nat \<Rightarrow> nat \<Rightarrow> nat" where
  "reserve len cap additional =
     (if cap - len < additional then max 8 (max (2 * cap) (len + additional)) else cap)"

lemma reserve_room: "len \<le> cap \<Longrightarrow> additional \<le> reserve len cap additional - len"
  by (auto simp: reserve_def)

lemma reserve_le: "cap \<le> reserve len cap additional"
  by (auto simp: reserve_def)

section \<open>The encoder (encoder.rs)\<close>

record 'c encoder =
  compressor :: 'c
  c_reset_context :: bool

definition new_encoder :: "'c deflater \<Rightarrow> bool \<Rightarrow> u8 option \<Rightarrow> 'c encoder option" where
  "new_encoder C reset_context window_bits =
     map_option (\<lambda>c. \<lparr>compressor = c, c_reset_context = reset_context\<rparr>)
       (new_deflater C window_bits)"

text \<open>The first loop feeds the input; the vector is \<open>v\<close> with capacity \<open>cap\<close>.\<close>

partial_function (option) compress_loop ::
  "'c deflater \<Rightarrow> nat \<Rightarrow> bytes \<Rightarrow> 'c \<Rightarrow> bytes \<Rightarrow> nat \<Rightarrow> ((io_error + bytes \<times> nat) \<times> 'c) option" where
  "compress_loop C before_in data c v cap =
     (if c_total_in C c - before_in < length data then
        (case compress_vec C (drop (c_total_in C c - before_in) data) (cap - length v) c of
           (Inl e, c') \<Rightarrow> Some (Inl e, c')
         | (Inr (st, out), c') \<Rightarrow>
             (case st of
                Ok \<Rightarrow> compress_loop C before_in data c' (v @ out) cap
              | StreamEnd \<Rightarrow> Some (Inr (v @ out, cap), c')
              | BufError \<Rightarrow> compress_loop C before_in data c' (v @ out)
                  (reserve (length (v @ out)) cap (length (v @ out) * 3 div 2))))
      else Some (Inr (v, cap), c))"

declare compress_loop.simps [code]

text \<open>The second loop flushes until the output ends in the sync marker.\<close>

partial_function (option) trailer_loop ::
  "'c deflater \<Rightarrow> 'c \<Rightarrow> bytes \<Rightarrow> nat \<Rightarrow> ((io_error + bytes) \<times> 'c) option" where
  "trailer_loop C c v cap =
     (if suffix DEFLATE_TRAILER v then Some (Inr v, c)
      else
        (case compress_vec C [] (reserve (length v) cap 5 - length v) c of
           (Inl e, c') \<Rightarrow> Some (Inl e, c')
         | (Inr (st, out), c') \<Rightarrow>
             (case st of
                Ok \<Rightarrow> trailer_loop C c' (v @ out) (reserve (length v) cap 5)
              | BufError \<Rightarrow> trailer_loop C c' (v @ out) (reserve (length v) cap 5)
              | StreamEnd \<Rightarrow> Some (Inr (v @ out), c'))))"

declare trailer_loop.simps [code]

text \<open>
  \<open>truncate(len - 4)\<close> on fewer than four bytes overflows the subtraction, a panic in a
  build with overflow checks.
\<close>

definition compress :: "'c deflater \<Rightarrow> bytes \<Rightarrow> ('c encoder, io_error, bytes) async" where
  "compress C data enc =
     (if data = [] then (Returns (Inr []), enc)
      else
        (case compress_loop C (c_total_in C (compressor enc)) data (compressor enc) []
                (length data * 2) of
           None \<Rightarrow> (Hangs, enc)
         | Some (Inl e, c1) \<Rightarrow> (Returns (Inl e), enc\<lparr>compressor := c1\<rparr>)
         | Some (Inr (v, cap), c1) \<Rightarrow>
             (case trailer_loop C c1 v cap of
                None \<Rightarrow> (Hangs, enc)
              | Some (Inl e, c2) \<Rightarrow> (Returns (Inl e), enc\<lparr>compressor := c2\<rparr>)
              | Some (Inr z, c2) \<Rightarrow>
                  if length z < 4 then (Panics, enc)
                  else (Returns (Inr (take (length z - 4) z)),
                        enc\<lparr>compressor := if c_reset_context enc then c_reset C c2 else c2\<rparr>))))"

section \<open>What the loops rely on\<close>

text \<open>
  \<open>emits c v xs z c'\<close>: with \<open>v\<close> already written for this message and the input \<open>xs\<close> left,
  the compressor in state \<open>c\<close> still has the bytes \<open>z\<close> to write, sync marker included, and
  ends in state \<open>c'\<close>. Calls with room make progress; the output ends in the sync marker
  when everything is written and not before.
\<close>

lemma twice_less: "a' < a \<Longrightarrow> b \<le> 1 \<Longrightarrow> 2 * a' + b < 2 * a + (c :: nat)"
  by simp

locale deflate_stream =
  fixes C :: "'c deflater"
    and emits :: "'c \<Rightarrow> bytes \<Rightarrow> bytes \<Rightarrow> bytes \<Rightarrow> 'c \<Rightarrow> bool"
  assumes compress_vec_step:
      "emits c v xs z c' \<Longrightarrow> xs \<noteq> [] \<Longrightarrow> 0 < room \<Longrightarrow>
         \<exists>k out z' c1. compress_vec C xs room c = (Inr (Ok, out), c1)
           \<and> k \<le> length xs \<and> c_total_in C c1 = c_total_in C c + k \<and> (0 < k \<or> out \<noteq> [])
           \<and> length out \<le> room \<and> z = out @ z' \<and> emits c1 (v @ out) (drop k xs) z' c'"
    and compress_vec_full:
      "emits c v xs z c' \<Longrightarrow> xs \<noteq> [] \<Longrightarrow>
         \<exists>c1. compress_vec C xs 0 c = (Inr (BufError, []), c1)
           \<and> c_total_in C c1 = c_total_in C c \<and> emits c1 v xs z c'"
    and compress_vec_flush:
      "emits c v [] z c' \<Longrightarrow> z \<noteq> [] \<Longrightarrow> 0 < room \<Longrightarrow>
         \<exists>out z' c1. compress_vec C [] room c = (Inr (Ok, out), c1)
           \<and> out \<noteq> [] \<and> length out \<le> room \<and> z = out @ z' \<and> emits c1 (v @ out) [] z' c'"
    and marker_last: "emits c v [] z c' \<Longrightarrow> suffix DEFLATE_TRAILER v \<longleftrightarrow> z = []"
    and finished: "emits c v [] [] c' \<Longrightarrow> c' = c"
begin

lemma compress_loop_emits:
  assumes "emits c v (drop i data) z c'" "c_total_in C c = before_in + i" "i \<le> length data"
    "length v \<le> cap" "0 < cap"
  shows "\<exists>out z' c1 cap'. compress_loop C before_in data c v cap = Some (Inr (v @ out, cap'), c1)
           \<and> z = out @ z' \<and> emits c1 (v @ out) [] z' c' \<and> length (v @ out) \<le> cap'"
  using assms
proof (induction "2 * (length data - i + length z) + (if cap = length v then 1 else 0)"
    arbitrary: c v i z cap rule: less_induct)
  case less
  note prems = less.prems and IH = less.hyps
  show ?case
  proof (cases "i < length data")
    case False
    then have "compress_loop C before_in data c v cap = Some (Inr (v @ [], cap), c)"
      using prems(2) by (subst compress_loop.simps) simp
    with False prems show ?thesis by fastforce
  next
    case True
    then have ne: "drop i data \<noteq> []" by simp
    show ?thesis
    proof (cases "cap = length v")
      case False
      then have "0 < cap - length v" using prems(4) by simp
      from compress_vec_step [OF prems(1) ne this]
      obtain k out z' c1 where call:
          "compress_vec C (drop i data) (cap - length v) c = (Inr (Ok, out), c1)"
        and k: "k \<le> length data - i" "0 < k \<or> out \<noteq> []" "length out \<le> cap - length v"
        and t: "c_total_in C c1 = before_in + (i + k)"
        and z: "z = out @ z'" and rest: "emits c1 (v @ out) (drop (i + k) data) z' c'"
        by (auto simp: prems(2) add.commute)
      have "length data - (i + k) + length z' < length data - i + length z"
        using k True by (cases out) (simp_all add: z)
      moreover have "(if cap = length (v @ out) then 1 else 0) \<le> (1 :: nat)" by simp
      ultimately have
        "2 * (length data - (i + k) + length z') + (if cap = length (v @ out) then 1 else 0)
          < 2 * (length data - i + length z) + (if cap = length v then 1 else 0)"
        by (rule twice_less)
      note less = this
      have "i + k \<le> length data" "length (v @ out) \<le> cap" using k prems(4) True by simp_all
      from IH [OF less rest t this prems(5)] obtain out' z'' c2 cap' where
          "compress_loop C before_in data c1 (v @ out) cap = Some (Inr ((v @ out) @ out', cap'), c2)"
          "z' = out' @ z''" "emits c2 ((v @ out) @ out') [] z'' c'"
          "length ((v @ out) @ out') \<le> cap'"
        by blast
      moreover have "compress_loop C before_in data c v cap
                   = compress_loop C before_in data c1 (v @ out) cap"
        using True prems(2) call by (subst compress_loop.simps) simp
      ultimately show ?thesis
        by (intro exI [of _ "out @ out'"] exI [of _ z''] exI [of _ c2] exI [of _ cap']) (simp add: z)
    next
      case full: True
      from compress_vec_full [OF prems(1) ne]
      obtain c1 where call: "compress_vec C (drop i data) 0 c = (Inr (BufError, []), c1)"
        and t: "c_total_in C c1 = before_in + i" and rest: "emits c1 v (drop i data) z c'"
        by (auto simp: prems(2))
      let ?cap = "reserve (length v) cap (length v * 3 div 2)"
      have "0 < length v * 3 div 2" using prems(5) full by linarith
      then have grow: "cap < ?cap" using full by (simp add: reserve_def)
      have "compress_loop C before_in data c v cap = compress_loop C before_in data c1 v ?cap"
        using True prems(2) call full by (subst compress_loop.simps) simp
      with IH [OF _ rest t prems(3), of ?cap] grow full show ?thesis by auto
    qed
  qed
qed

lemma trailer_loop_emits:
  assumes "emits c v [] z c'" "length v \<le> cap"
  shows "trailer_loop C c v cap = Some (Inr (v @ z), c')"
  using assms
proof (induction "length z" arbitrary: c v z cap rule: less_induct)
  case less
  show ?case
  proof (cases "z = []")
    case True
    with less.prems marker_last [OF less.prems(1)] finished [of c v c'] show ?thesis
      by (subst trailer_loop.simps) simp
  next
    case False
    let ?cap = "reserve (length v) cap 5"
    have room: "0 < ?cap - length v" using reserve_room [OF less.prems(2), of 5] by simp
    from compress_vec_flush [OF less.prems(1) False room]
    obtain out z' c1 where call: "compress_vec C [] (?cap - length v) c = (Inr (Ok, out), c1)"
      and o: "out \<noteq> []" "length out \<le> ?cap - length v" "z = out @ z'"
      and rest: "emits c1 (v @ out) [] z' c'" by blast
    have "trailer_loop C c1 (v @ out) ?cap = Some (Inr ((v @ out) @ z'), c')"
      using less.hyps [OF _ rest, of ?cap] o room by simp
    with False marker_last [OF less.prems(1)] call show ?thesis
      by (subst trailer_loop.simps) (simp add: o)
  qed
qed

text \<open>A message is compressed to its deflate stream without the sync marker.\<close>

lemma compress_emits:
  assumes "data \<noteq> []" "emits (compressor enc) [] data (z @ DEFLATE_TRAILER) c'"
  shows "compress C data enc
       = (Returns (Inr z), enc\<lparr>compressor := if c_reset_context enc then c_reset C c' else c'\<rparr>)"
proof -
  have pos: "0 < length data * 2" using assms(1) by simp
  from compress_loop_emits [of "compressor enc" "[]" 0 data "z @ DEFLATE_TRAILER" c'
      "c_total_in C (compressor enc)" "length data * 2"] assms(2) pos
  obtain out z' c1 cap' where
      1: "compress_loop C (c_total_in C (compressor enc)) data (compressor enc) [] (length data * 2)
          = Some (Inr (out, cap'), c1)"
    and 2: "z @ DEFLATE_TRAILER = out @ z'" "emits c1 out [] z' c'" "length out \<le> cap'"
    by auto
  have "trailer_loop C c1 out cap' = Some (Inr (z @ DEFLATE_TRAILER), c')"
    using trailer_loop_emits [OF 2(2,3)] 2(1) by simp
  with 1 assms(1) show ?thesis by (simp add: compress_def DEFLATE_TRAILER_def)
qed

end

end
