(* ===== verification/Deflate.thy ===== *)
theory Deflate
  imports Encoder
begin

text \<open>
  Encoder and decoder together: the contract under which a compressed message comes back,
  and a concrete compressor and decompressor that meet it, so that the contract is known to
  be satisfiable. The concrete pair produces and reads real DEFLATE data (RFC 1951),
  restricted to stored blocks.
\<close>

section \<open>The contract\<close>

text \<open>
  \<open>synced e d\<close>: the encoder of one side and the decoder of the other agree on the
  compression context. Compressing a payload then yields a nonempty message which the
  decoder turns back into the payload, after which the two are in step again.
\<close>

locale message_codec =
  fixes C :: "'c deflater"
    and I :: "'d inflater"
    and synced :: "'c encoder \<Rightarrow> 'd decoder \<Rightarrow> bool"
  assumes compress_decompress:
    "synced e d \<Longrightarrow> p \<noteq> [] \<Longrightarrow>
       \<exists>z e' d'. compress C p e = (Returns (Inr z), e') \<and> z \<noteq> []
         \<and> decompress I z d = (Returns (Inr p), d') \<and> synced e' d'"

text \<open>The contract of flate2's two streams gives it, through the loops of the crate.\<close>

locale deflate_pair = inflate_stream I decodes + deflate_stream C emits
  for I :: "'d inflater" and decodes :: "'d \<Rightarrow> bytes \<Rightarrow> bytes \<Rightarrow> 'd \<Rightarrow> bool"
    and C :: "'c deflater" and emits :: "'c \<Rightarrow> bytes \<Rightarrow> bytes \<Rightarrow> bytes \<Rightarrow> 'c \<Rightarrow> bool" +
  fixes synced :: "'c encoder \<Rightarrow> 'd decoder \<Rightarrow> bool"
  assumes transfer:
    "synced e d \<Longrightarrow> p \<noteq> [] \<Longrightarrow>
       \<exists>z c' d'. z \<noteq> [] \<and> emits (compressor e) [] p (z @ DEFLATE_TRAILER) c'
         \<and> decodes (if d_reset_context d then d_reset I (decompressor d) else decompressor d)
             (z @ DEFLATE_TRAILER) p d'
         \<and> synced (e\<lparr>compressor := if c_reset_context e then c_reset C c' else c'\<rparr>)
             (d\<lparr>decompressor := d'\<rparr>)"

context deflate_pair
begin

lemma round_trip:
  assumes "synced e d" "p \<noteq> []"
  shows "\<exists>z e' d'. compress C p e = (Returns (Inr z), e') \<and> z \<noteq> []
           \<and> decompress I z d = (Returns (Inr p), d') \<and> synced e' d'"
proof -
  from transfer [OF assms] obtain z c' d' where t:
      "z \<noteq> []" "emits (compressor e) [] p (z @ DEFLATE_TRAILER) c'"
      "decodes (if d_reset_context d then d_reset I (decompressor d) else decompressor d)
         (z @ DEFLATE_TRAILER) p d'"
      "synced (e\<lparr>compressor := if c_reset_context e then c_reset C c' else c'\<rparr>)
         (d\<lparr>decompressor := d'\<rparr>)" by blast
  with compress_emits [OF assms(2) t(2)] decompress_decodes [OF t(3)]
  show "\<exists>z e' d'. compress C p e = (Returns (Inr z), e') \<and> z \<noteq> []
         \<and> decompress I z d = (Returns (Inr p), d') \<and> synced e' d'"
    by blast
qed

end

sublocale deflate_pair \<subseteq> message_codec C I synced
  by unfold_locales (rule round_trip)

section \<open>Stored blocks: a decompressor\<close>

text \<open>
  A stored block is a header byte 0, its length and the length's complement (two bytes
  each, low byte first) and the data. The decompressor is an automaton on bytes; it reports
  a data error on any other block.
\<close>

datatype phase = Header | Len0 | Len1 nat | Nlen0 nat | Nlen1 nat | Data nat

fun inflate_step :: "phase \<Rightarrow> u8 \<Rightarrow> (phase \<times> bytes) option" where
  "inflate_step Header b = (if b = 0 then Some (Len0, []) else None)"
| "inflate_step Len0 b = Some (Len1 (unat b), [])"
| "inflate_step (Len1 n) b = Some (Nlen0 (n + 256 * unat b), [])"
| "inflate_step (Nlen0 n) b = (if unat b = 255 - n mod 256 then Some (Nlen1 n, []) else None)"
| "inflate_step (Nlen1 n) b =
     (if unat b = 255 - n div 256 then Some (if n = 0 then Header else Data n, []) else None)"
| "inflate_step (Data n) b = Some (if n \<le> 1 then Header else Data (n - 1), [b])"

fun inflate_all :: "phase \<Rightarrow> bytes \<Rightarrow> (phase \<times> bytes) option" where
  "inflate_all ph [] = Some (ph, [])"
| "inflate_all ph (b # bs) =
     (case inflate_step ph b of
        None \<Rightarrow> None
      | Some (ph', out) \<Rightarrow> map_option (map_prod id ((@) out)) (inflate_all ph' bs))"

text \<open>The same with bounded room: the phase reached, the bytes consumed, the output.\<close>

fun inflate_some :: "phase \<Rightarrow> bytes \<Rightarrow> nat \<Rightarrow> (phase \<times> nat \<times> bytes) option" where
  "inflate_some ph [] room = Some (ph, 0, [])"
| "inflate_some ph (b # bs) room =
     (case inflate_step ph b of
        None \<Rightarrow> None
      | Some (ph', out) \<Rightarrow>
          if room < length out then Some (ph, 0, [])
          else map_option (\<lambda>(ph'', k, outs). (ph'', Suc k, out @ outs))
                 (inflate_some ph' bs (room - length out)))"

definition stored_inflater :: "(nat \<times> phase) inflater" where
  "stored_inflater =
     \<lparr>d_total_in = fst,
      decompress_vec = (\<lambda>xs room (t, ph).
        case inflate_some ph xs room of
          None \<Rightarrow> (Inl InvalidInput, (t, ph))
        | Some (ph', k, out) \<Rightarrow>
            (Inr (if k = 0 then BufError else Ok, out), (t + k, ph'))),
      d_reset = (\<lambda>_. (0, Header)),
      new_inflater = (\<lambda>bits. case bits of
          None \<Rightarrow> Some (0, Header)
        | Some b \<Rightarrow> if 9 \<le> b \<and> b \<le> 15 then Some (0, Header) else None)\<rparr>"

definition stored_decodes :: "nat \<times> phase \<Rightarrow> bytes \<Rightarrow> bytes \<Rightarrow> nat \<times> phase \<Rightarrow> bool" where
  "stored_decodes d xs p d' \<longleftrightarrow>
     inflate_all (snd d) xs = Some (snd d', p) \<and> fst d' = fst d + length xs"

lemma inflate_some_all:
  assumes "inflate_all ph xs = Some (ph', p)"
  shows "\<exists>ph1 k out p'. inflate_some ph xs room = Some (ph1, k, out) \<and> k \<le> length xs
           \<and> p = out @ p' \<and> inflate_all ph1 (drop k xs) = Some (ph', p')"
  using assms
proof (induction xs arbitrary: ph p room)
  case Nil
  then show ?case by simp
next
  case (Cons b bs)
  then obtain ph2 out p2 where s: "inflate_step ph b = Some (ph2, out)"
      "inflate_all ph2 bs = Some (ph', p2)" "p = out @ p2"
    by (auto split: option.splits)
  show ?case
  proof (cases "room < length out")
    case True
    with s Cons.prems show ?thesis by simp
  next
    case False
    from Cons.IH [OF s(2), of "room - length out"] False s show ?thesis by fastforce
  qed
qed

lemma inflate_step_out: "inflate_step ph b = Some (ph', out) \<Longrightarrow> length out \<le> 1"
  by (cases ph) (auto split: if_splits)

lemma inflate_some_progress:
  assumes "xs \<noteq> []" "0 < room" "inflate_some ph xs room = Some (ph1, k, out)"
  shows "0 < k"
proof (cases xs)
  case (Cons b bs)
  with assms inflate_step_out [of ph b] show ?thesis
    by (fastforce split: option.splits if_splits)
qed (use assms in simp)

section \<open>Stored blocks: a compressor\<close>

text \<open>Every byte becomes a stored block of its own; a flush adds an empty stored block.\<close>

definition stored_block :: "u8 \<Rightarrow> bytes" where
  "stored_block b = [0, 1, 0, 254, 255, b]"

definition stored_stream :: "bytes \<Rightarrow> bytes" where
  "stored_stream xs = concat (map stored_block xs) @ [0] @ DEFLATE_TRAILER"

definition stored_deflater :: "(nat \<times> bytes) deflater" where
  "stored_deflater =
     \<lparr>c_total_in = fst,
      compress_vec = (\<lambda>xs room (t, pending).
        if room = 0 \<or> (xs = [] \<and> pending = []) then (Inr (BufError, []), (t, pending))
        else let all = pending @ (if xs = [] then [] else stored_stream xs)
             in (Inr (Ok, take room all), (t + length xs, drop room all))),
      c_reset = (\<lambda>_. (0, [])),
      new_deflater = (\<lambda>bits. case bits of
          None \<Rightarrow> Some (0, [])
        | Some b \<Rightarrow> if 9 \<le> b \<and> b \<le> 15 then Some (0, []) else None)\<rparr>"

definition stored_emits :: "nat \<times> bytes \<Rightarrow> bytes \<Rightarrow> bytes \<Rightarrow> bytes \<Rightarrow> nat \<times> bytes \<Rightarrow> bool" where
  "stored_emits c v xs z c' \<longleftrightarrow>
     z = snd c @ (if xs = [] then [] else stored_stream xs)
     \<and> c' = (fst c + length xs, []) \<and> (\<exists>ys. v @ z = stored_stream ys)"

text \<open>The sync marker occurs in such a stream only at its end.\<close>

lemma stored_stream_Nil: "stored_stream [] = [0, 0, 0, 255, 255]"
  by (simp add: stored_stream_def DEFLATE_TRAILER_def)

lemma stored_stream_Cons: "stored_stream (b # ys) = [0, 1, 0, 254, 255, b] @ stored_stream ys"
  by (simp add: stored_stream_def stored_block_def)

lemma stored_stream_start: "\<exists>x r. stored_stream ys = 0 # x # 0 # r \<and> x \<noteq> 255"
  by (cases ys) (simp_all add: stored_stream_Nil stored_stream_Cons)

lemma stored_marker_offset:
  assumes "[0, 1, 0, 254, 255, b, 0, x, 0] @ r = u @ [0, 0, 255, 255] @ z" "x \<noteq> (255 :: u8)"
  shows "6 \<le> length u"
proof (rule ccontr)
  let ?s = "[0, 1, 0, 254, 255, b, 0, x, 0] @ r"
  assume "\<not> 6 \<le> length u"
  then consider "length u = 0" | "length u = 1" | "length u = 2" | "length u = 3"
    | "length u = 4" | "length u = 5" by linarith
  moreover have "?s ! length u = 0" "?s ! (length u + 1) = 0" "?s ! (length u + 2) = 255"
    unfolding assms(1) by (simp_all add: nth_append)
  ultimately show False using assms(2) by cases (simp_all add: nth_append)
qed

lemma stored_marker_last:
  assumes "stored_stream ys = v @ z" "suffix DEFLATE_TRAILER v"
  shows "z = []"
  using assms
proof (induction ys arbitrary: v)
  case Nil
  then obtain u where u: "[0, 0, 0, 255, 255] = u @ [0, 0, 255, 255] @ z"
    by (auto simp: stored_stream_Nil DEFLATE_TRAILER_def suffix_def)
  from arg_cong [OF u, of length] have "length u + length z = 1" by simp
  with u show ?case by (cases u) simp_all
next
  case (Cons b ys)
  from Cons.prems(2) obtain u where u: "v = u @ [0, 0, 255, 255]"
    by (auto simp: DEFLATE_TRAILER_def suffix_def)
  obtain x r where r: "stored_stream ys = 0 # x # 0 # r" "x \<noteq> 255"
    using stored_stream_start by blast
  have "6 \<le> length u"
    by (rule stored_marker_offset [of b x r u z])
       (use Cons.prems(1) u r in \<open>simp_all add: stored_stream_Cons\<close>)
  then obtain u1 u2 where u12: "u = u1 @ u2" "length u1 = 6"
    by (metis append_take_drop_id length_take min.absorb2)
  with Cons.prems(1) u have "stored_stream ys = (u2 @ [0, 0, 255, 255]) @ z"
    by (simp add: stored_stream_Cons append_eq_append_conv [of "[0, 1, 0, 254, 255, b]" u1, simplified])
  then show ?case by (rule Cons.IH) (simp add: DEFLATE_TRAILER_def suffix_def)
qed

lemma stored_marker_end: "suffix DEFLATE_TRAILER (stored_stream ys)"
  by (simp add: stored_stream_def suffix_def)

section \<open>The concrete pair meets the contract\<close>

interpretation stored_source: inflate_stream stored_inflater stored_decodes
proof unfold_locales
  fix d xs p d' and room :: nat
  assume a: "stored_decodes d xs p d'" "xs \<noteq> []" "0 < room"
  obtain t ph where d: "d = (t, ph)" by (cases d)
  from a(1) have "inflate_all ph xs = Some (snd d', p)" by (simp add: stored_decodes_def d)
  from inflate_some_all [OF this, of room] obtain ph1 k out p' where
    s: "inflate_some ph xs room = Some (ph1, k, out)" "k \<le> length xs" "p = out @ p'"
      "inflate_all ph1 (drop k xs) = Some (snd d', p')" by blast
  from inflate_some_progress [OF a(2,3) s(1)] have "0 < k" .
  with s a(1) show "\<exists>k out p' d1. decompress_vec stored_inflater xs room d = (Inr (Ok, out), d1)
           \<and> k \<le> length xs \<and> d_total_in stored_inflater d1 = d_total_in stored_inflater d + k
           \<and> (0 < k \<or> out \<noteq> []) \<and> p = out @ p' \<and> stored_decodes d1 (drop k xs) p' d'"
    by (auto simp: stored_inflater_def d stored_decodes_def
        intro!: exI [of _ k] exI [of _ out] exI [of _ p'] exI [of _ "(t + k, ph1)"])
next
  fix d p d'
  assume "stored_decodes d [] p d'"
  then show "p = [] \<and> d' = d" by (cases d; cases d') (simp add: stored_decodes_def)
qed

interpretation stored_sink: deflate_stream stored_deflater stored_emits
proof unfold_locales
  fix c v xs z c' and room :: nat
  assume a: "stored_emits c v xs z c'" "xs \<noteq> []" "0 < room"
  let ?all = "snd c @ stored_stream xs"
  show "\<exists>k out z' c1. compress_vec stored_deflater xs room c = (Inr (Ok, out), c1)
           \<and> k \<le> length xs \<and> c_total_in stored_deflater c1 = c_total_in stored_deflater c + k
           \<and> (0 < k \<or> out \<noteq> []) \<and> length out \<le> room \<and> z = out @ z'
           \<and> stored_emits c1 (v @ out) (drop k xs) z' c'"
  proof (intro exI conjI)
    show "compress_vec stored_deflater xs room c
        = (Inr (Ok, take room ?all), (fst c + length xs, drop room ?all))"
      using a by (cases c) (simp add: stored_deflater_def Let_def)
    show "z = take room ?all @ drop room ?all"
      using a by (simp add: stored_emits_def del: take_append drop_append)
    have "v @ take room ?all @ drop room ?all = v @ z"
      using a by (simp add: stored_emits_def del: take_append drop_append)
    then show "stored_emits (fst c + length xs, drop room ?all) (v @ take room ?all)
        (drop (length xs) xs) (drop room ?all) c'"
      using a by (simp add: stored_emits_def del: take_append drop_append)
    show "0 < length xs \<or> take room ?all \<noteq> []" using a by simp
  qed (simp_all add: stored_deflater_def)
next
  fix c v xs z c'
  assume "stored_emits c v xs z c'" "xs \<noteq> []"
  then show "\<exists>c1. compress_vec stored_deflater xs 0 c = (Inr (BufError, []), c1)
      \<and> c_total_in stored_deflater c1 = c_total_in stored_deflater c \<and> stored_emits c1 v xs z c'"
    by (cases c) (simp add: stored_deflater_def)
next
  fix c v z c' and room :: nat
  assume a: "stored_emits c v [] z c'" "z \<noteq> []" "0 < room"
  then have z: "z = snd c" by (simp add: stored_emits_def)
  show "\<exists>out z' c1. compress_vec stored_deflater [] room c = (Inr (Ok, out), c1)
      \<and> out \<noteq> [] \<and> length out \<le> room \<and> z = out @ z' \<and> stored_emits c1 (v @ out) [] z' c'"
    using a by (intro exI [of _ "take room z"] exI [of _ "drop room z"]
        exI [of _ "(fst c, drop room z)"])
      (cases c, auto simp: stored_deflater_def stored_emits_def Let_def)
next
  fix c v z c'
  assume "stored_emits c v [] z c'"
  then obtain ys where ys: "stored_stream ys = v @ z" by (auto simp: stored_emits_def)
  show "suffix DEFLATE_TRAILER v \<longleftrightarrow> z = []"
    using stored_marker_last [OF ys] stored_marker_end [of ys] ys by auto
next
  fix c v c'
  assume "stored_emits c v [] [] c'"
  then show "c' = c" by (cases c; cases c') (simp add: stored_emits_def)
qed

definition stored_synced :: "(nat \<times> bytes) encoder \<Rightarrow> (nat \<times> phase) decoder \<Rightarrow> bool" where
  "stored_synced e d \<longleftrightarrow> snd (compressor e) = [] \<and> snd (decompressor d) = Header"

lemma inflate_stored_stream: "inflate_all Header (stored_stream p) = Some (Header, p)"
  by (induction p) (simp_all add: stored_stream_Nil stored_stream_Cons)

interpretation stored: deflate_pair stored_inflater stored_decodes stored_deflater stored_emits
  stored_synced
proof unfold_locales
  fix e :: "(nat \<times> bytes) encoder" and d :: "(nat \<times> phase) decoder" and p :: bytes
  assume s: "stored_synced e d" "p \<noteq> []"
  let ?z = "concat (map stored_block p) @ [0]"
  let ?d = "if d_reset_context d then d_reset stored_inflater (decompressor d) else decompressor d"
  let ?c' = "(fst (compressor e) + length p, []) :: nat \<times> bytes"
  let ?d' = "(fst ?d + length (stored_stream p), Header)"
  have z: "?z @ DEFLATE_TRAILER = stored_stream p" by (simp add: stored_stream_def)
  have h: "snd ?d = Header" using s(1) by (simp add: stored_synced_def stored_inflater_def)
  have "stored_emits (compressor e) [] p (?z @ DEFLATE_TRAILER) ?c'"
    unfolding z using s by (auto simp: stored_emits_def stored_synced_def)
  moreover have "stored_decodes ?d (?z @ DEFLATE_TRAILER) p ?d'"
    unfolding z by (simp only: stored_decodes_def h inflate_stored_stream fst_conv snd_conv simp_thms)
  moreover have "stored_synced
      (e\<lparr>compressor := if c_reset_context e then c_reset stored_deflater ?c' else ?c'\<rparr>)
      (d\<lparr>decompressor := ?d'\<rparr>)"
    by (simp add: stored_synced_def stored_deflater_def)
  ultimately show "\<exists>z c' d'. z \<noteq> [] \<and> stored_emits (compressor e) [] p (z @ DEFLATE_TRAILER) c'
      \<and> stored_decodes ?d (z @ DEFLATE_TRAILER) p d'
      \<and> stored_synced (e\<lparr>compressor := if c_reset_context e then c_reset stored_deflater c' else c'\<rparr>)
          (d\<lparr>decompressor := d'\<rparr>)"
    by blast
qed

section \<open>Properties\<close>



end
