(* ===== verification/Reader.thy ===== *)
theory Reader
  imports Writer Deflate
begin

text \<open>
  \<open>src/read.rs\<close>: the reader of a connection. Methods run on the pair of the \<open>ReadStream\<close>
  and the world behind its socket half, its channel and the shared writer; the decompressor
  is a parameter. After the code: what one frame on the wire is read as, which inputs are
  refused and with which error, that the loop always ends on a finite input, what it
  delivers and what it writes back.
\<close>

section \<open>The state\<close>

record fragmented_message =
  fragments :: bytes
  fm_op_code :: op_code
  fm_compressed :: bool

record 'd read_stream =
  fragmented :: "fragmented_message option"
  rs_writer :: writer
  rs_config :: web_socket_config
  rs_decoder :: "'d decoder"

definition new_read_stream :: "writer \<Rightarrow> web_socket_config \<Rightarrow> 'd decoder \<Rightarrow> 'd read_stream" where
  "new_read_stream wtr config dec =
     \<lparr>fragmented = None, rs_writer = wtr, rs_config = config, rs_decoder = dec\<rparr>"

type_synonym ('d, 'w, 'a) reading = "('d read_stream \<times> 'w, error, 'a) async"

section \<open>Reading one frame\<close>

definition rd :: "'w runtime \<Rightarrow> nat \<Rightarrow> ('d, 'w, bytes) reading" where
  "rd R n = io (map_err IOError (read_exact R n))"

text \<open>The length: seven bits, or two or eight more bytes after the escapes 126 and 127.\<close>

definition read_length :: "'w runtime \<Rightarrow> nat \<Rightarrow> ('d, 'w, nat) reading" where
  "read_length R n =
     (if n = 126 then await (rd R 2) (\<lambda>bs. ok (be_value bs))
      else if n = 127 then await (rd R 8) (\<lambda>bs. ok (be_value bs))
      else ok n)"

definition read_mask :: "'w runtime \<Rightarrow> bool \<Rightarrow> ('d, 'w, bytes option) reading" where
  "read_mask R masked = (if masked then await (rd R 4) (\<lambda>key. ok (Some key)) else ok None)"

text \<open>\<open>timeout(5 s, read_exact)\<close>: the inner result is an I/O error, the outer one the deadline.\<close>

definition read_payload :: "'w runtime \<Rightarrow> nat \<Rightarrow> ('d, 'w, bytes) reading" where
  "read_payload R n =
     await (io (map_err Timeout (timeout_read_exact R 5 n))) (\<lambda>r.
       case r of Inl e \<Rightarrow> err (IOError e) | Inr bs \<Rightarrow> ok bs)"

text \<open>\<open>self.decoder.decompress(...)?\<close>\<close>

definition run_decoder :: "('d decoder, io_error, 'a) async \<Rightarrow> ('d, 'w, 'a) reading" where
  "run_decoder m = map_err IOError (\<lambda>(self, w).
     let (r, dec) = m (rs_decoder self) in (r, (self\<lparr>rs_decoder := dec\<rparr>, w)))"

definition read_frame :: "'w runtime \<Rightarrow> 'd inflater \<Rightarrow> ('d, 'w, frame) reading" where
  "read_frame R I =
     await (rd R 2) (\<lambda>header.
     let fin = (header ! 0 AND 0x80 \<noteq> 0) in
     await (of_result (op_code_from (header ! 0 AND 0x0F))) (\<lambda>op.
     let rsv1 = (header ! 0 AND 0x40 \<noteq> 0);
         rsv2 = (header ! 0 AND 0x20 \<noteq> 0);
         rsv3 = (header ! 0 AND 0x10 \<noteq> 0) in
     await get_self (\<lambda>self.
     await (ensure (\<not> (rsv2 \<or> rsv3 \<or> (rsv1 \<and> \<not> deflate_enabled (rs_config self)))) RSVNotZero) (\<lambda>_.
     await (ensure (\<not> (\<not> fin \<and> is_control op)) ControlFramesFragmented) (\<lambda>_.
     let masked = (header ! 1 AND 0x80 \<noteq> 0);
         len7 = unat (header ! 1 AND 0x7F) in
     await (ensure (\<not> (125 < len7 \<and> is_control op)) ControlFramePayloadSize) (\<lambda>_.
     await (read_length R len7) (\<lambda>len.
     await (ensure (\<not> frame_limit (rs_config self) < len) MaxFrameSize) (\<lambda>_.
     await (read_mask R masked) (\<lambda>key.
     await (read_payload R len) (\<lambda>data.
     let data = (case key of Some k \<Rightarrow> mask_from k 0 data | None \<Rightarrow> data) in
     await (if rsv1 \<and> fin then run_decoder (decompress I data) else ok data) (\<lambda>data.
     ok \<lparr>final_fragment = fin, opcode = op, payload = data, compressed = rsv1\<rparr>)))))))))))"

section \<open>Replies and delivery\<close>

definition reader_write :: "'w runtime \<Rightarrow> frame \<Rightarrow> ('d, 'w, unit) reading" where
  "reader_write R fr = await get_self (\<lambda>self. io (write_frame R (rs_writer self) fr False))"

definition send_pong_frame :: "'w runtime \<Rightarrow> bytes \<Rightarrow> ('d, 'w, unit) reading" where
  "send_pong_frame R data = reader_write R (new_frame True op_code.Pong data False)"

definition send_close_frame :: "'w runtime \<Rightarrow> ('d, 'w, unit) reading" where
  "send_close_frame R = reader_write R (new_frame True op_code.Close [] False)"

definition transmit_message :: "'w runtime \<Rightarrow> frame \<Rightarrow> ('d, 'w, unit) reading" where
  "transmit_message R fr =
     await (if opcode fr = op_code.Text
            then await (of_result (from_utf8 (payload fr))) (\<lambda>_. ok ()) else ok ()) (\<lambda>_.
     await (of_result (from_frame fr)) (\<lambda>m.
     io (map_err (\<lambda>_. CommunicationError) (channel_send R (Inr m)))))"

section \<open>The loop\<close>

text \<open>One iteration on a frame: the loop goes round (\<open>True\<close>) or is left by \<open>break\<close>.\<close>

definition handle_continue :: "'w runtime \<Rightarrow> 'd inflater \<Rightarrow> frame \<Rightarrow> ('d, 'w, unit) reading" where
  "handle_continue R I fr =
     await get_self (\<lambda>self.
     case fragmented self of
       None \<Rightarrow> err InvalidContinuationFrame
     | Some fm0 \<Rightarrow>
         let fm = fm0\<lparr>fragments := fragments fm0 @ payload fr\<rparr> in
         await (put_self (self\<lparr>fragmented := Some fm\<rparr>)) (\<lambda>_.
         await (ensure (\<not> message_limit (rs_config self) < length (fragments fm)) MaxMessageSize) (\<lambda>_.
         if final_fragment fr then
           await (put_self (self\<lparr>fragmented := None\<rparr>)) (\<lambda>_.
           await (if fm_compressed fm then run_decoder (decompress I (fragments fm))
                  else ok (fragments fm)) (\<lambda>data.
           transmit_message R (new_frame True (fm_op_code fm) data False)))
         else ok ())))"

definition handle_data :: "'w runtime \<Rightarrow> frame \<Rightarrow> ('d, 'w, unit) reading" where
  "handle_data R fr =
     await get_self (\<lambda>self.
     if \<not> final_fragment fr then
       (if fragmented self = None then
          put_self (self\<lparr>fragmented := Some \<lparr>fragments = payload fr, fm_op_code = opcode fr,
                                          fm_compressed = compressed fr\<rparr>\<rparr>)
        else err FragmentedInProgress)
     else if fragmented self \<noteq> None then err InvalidFrameFragmentation
     else transmit_message R fr)"

definition handle_frame :: "'w runtime \<Rightarrow> 'd inflater \<Rightarrow> frame \<Rightarrow> ('d, 'w, bool) reading" where
  "handle_frame R I fr =
     (case opcode fr of
        op_code.Text \<Rightarrow> await (handle_data R fr) (\<lambda>_. ok True)
      | op_code.Binary \<Rightarrow> await (handle_data R fr) (\<lambda>_. ok True)
      | op_code.Continue \<Rightarrow> await (handle_continue R I fr) (\<lambda>_. ok True)
      | op_code.Close \<Rightarrow> await (send_close_frame R) (\<lambda>_. ok False)
      | op_code.Ping \<Rightarrow> await (send_pong_frame R (payload fr)) (\<lambda>_. ok True)
      | op_code.Pong \<Rightarrow> ok True)"

definition poll_once :: "'w runtime \<Rightarrow> 'd inflater \<Rightarrow> ('d, 'w, bool) reading" where
  "poll_once R I = await (read_frame R I) (handle_frame R I)"

text \<open>\<open>None\<close> would be a loop that goes round for ever.\<close>

partial_function (option) poll_messages ::
  "'w runtime \<Rightarrow> 'd inflater \<Rightarrow> 'd read_stream \<times> 'w
     \<Rightarrow> ((error + unit) outcome \<times> ('d read_stream \<times> 'w)) option" where
  "poll_messages R I s =
     (case poll_once R I s of
        (Returns (Inr again), s') \<Rightarrow>
          if again then poll_messages R I s' else Some (Returns (Inr ()), s')
      | (Returns (Inl e), s') \<Rightarrow> Some (Returns (Inl e), s')
      | (Hangs, s') \<Rightarrow> Some (Hangs, s')
      | (Panics, s') \<Rightarrow> Some (Panics, s'))"

declare poll_messages.simps [code]

section \<open>A frame on the wire is read back\<close>

lemma head_byte_fields:
  "head_byte fin rsv1 op AND 0x80 = 0 \<longleftrightarrow> \<not> fin"
  "head_byte fin rsv1 op AND 0x40 = 0 \<longleftrightarrow> \<not> rsv1"
  "head_byte fin rsv1 op AND 0x20 = 0" "head_byte fin rsv1 op AND 0x10 = 0"
  "op_code_from (head_byte fin rsv1 op AND 0x0F) = Inr op"
  by (cases op; cases fin; cases rsv1;
      simp add: head_byte_def as_u8_def byte_def op_code_from_def)+

lemma length_byte_fields:
  assumes "n \<le> 127"
  shows "byte ((if masked then 128 else 0) + n) AND 0x80 \<noteq> 0 \<longleftrightarrow> masked"
    and "unat (byte ((if masked then 128 else 0) + n) AND 0x7F) = n"
proof -
  have "\<forall>n \<in> set [0..<128]. byte n AND 0x80 = 0 \<and> byte (128 + n) AND 0x80 \<noteq> 0
      \<and> unat (byte n AND 0x7F) = n \<and> unat (byte (128 + n) AND 0x7F) = n"
    by code_simp
  then have "n < 128 \<Longrightarrow> byte n AND 0x80 = 0 \<and> byte (128 + n) AND 0x80 \<noteq> 0
      \<and> unat (byte n AND 0x7F) = n \<and> unat (byte (128 + n) AND 0x7F) = n" by simp
  with assms show "byte ((if masked then 128 else 0) + n) AND 0x80 \<noteq> 0 \<longleftrightarrow> masked"
    and "unat (byte ((if masked then 128 else 0) + n) AND 0x7F) = n" by simp_all
qed

lemma length_field_nonempty: "length_field masked n \<noteq> []"
  by (simp add: length_field_def Let_def)

lemma length_field_bits:
  assumes "length_field masked n = b # xs"
  shows "b AND 0x80 \<noteq> 0 \<longleftrightarrow> masked" "n \<le> 125 \<Longrightarrow> unat (b AND 0x7F) \<le> 125"
proof -
  define m where "m = (if n \<le> 125 then n else if n \<le> 65535 then 126 else 127)"
  have "b = byte ((if masked then 128 else 0) + m)" "m \<le> 127" "n \<le> 125 \<Longrightarrow> m = n"
    using assms by (auto simp: length_field_def Let_def m_def split: if_splits)
  then show "b AND 0x80 \<noteq> 0 \<longleftrightarrow> masked" "n \<le> 125 \<Longrightarrow> unat (b AND 0x7F) \<le> 125"
    by (simp_all only: length_byte_fields)
qed

text \<open>
  A frame the configuration allows, and the payload after decompression of a final frame
  with RSV1.
\<close>

definition frame_fits :: "web_socket_config \<Rightarrow> bool \<Rightarrow> bool \<Rightarrow> op_code \<Rightarrow> nat \<Rightarrow> bool" where
  "frame_fits config fin rsv1 op n \<longleftrightarrow>
     n \<le> frame_limit config \<and> n < 2 ^ 64 \<and> (is_control op \<longrightarrow> fin \<and> n \<le> 125)
     \<and> (rsv1 \<longrightarrow> deflate_enabled config)"

definition read_outcome ::
  "bool \<Rightarrow> bool \<Rightarrow> op_code \<Rightarrow> (io_error + bytes) outcome \<Rightarrow> (error + frame) outcome" where
  "read_outcome fin rsv1 op r =
     map_outcome (map_sum IOError
       (\<lambda>q. \<lparr>final_fragment = fin, opcode = op, payload = q, compressed = rsv1\<rparr>)) r"

definition inflated :: "'d inflater \<Rightarrow> bool \<Rightarrow> bytes \<Rightarrow> ('d decoder, io_error, bytes) async" where
  "inflated I z p = (if z then decompress I p else ok p)"

context byte_source
begin

lemma rd_at:
  assumes "punctual (view w)" "incoming (view w) = xs @ rest" "length xs = n"
  obtains w' where "rd R n (self, w) = (Returns (Inr xs), (self, w'))"
    "view w' = (view w)\<lparr>incoming := rest\<rparr>"
proof
  have n: "n \<le> length (incoming (view w))" using assms by simp
  show "rd R n (self, w) = (Returns (Inr xs), (self, snd (read_exact R n w)))"
    using read_exact_ok [OF n] assms by (simp add: rd_def run)
  show "view (snd (read_exact R n w)) = (view w)\<lparr>incoming := rest\<rparr>"
    using read_exact_view [OF assms(1) n] assms by simp
qed

lemma read_payload_at:
  assumes "punctual (view w)" "incoming (view w) = xs @ rest" "length xs = n"
  obtains w' where "read_payload R n (self, w) = (Returns (Inr xs), (self, w'))"
    "view w' = (view w)\<lparr>incoming := rest\<rparr>"
proof
  have n: "n \<le> length (incoming (view w))" using assms by simp
  show "read_payload R n (self, w) = (Returns (Inr xs), (self, snd (timeout_read_exact R 5 n w)))"
    using timed_ok [OF assms(1) n, of 5] assms by (simp add: read_payload_def run)
  show "view (snd (timeout_read_exact R 5 n w)) = (view w)\<lparr>incoming := rest\<rparr>"
    using timed_view [OF assms(1) n, of 5] assms by simp
qed

lemma read_mask_at:
  assumes "punctual (view w)" "incoming (view w) = unwrap_or [] key @ rest" "key_ok key"
  obtains w' where "read_mask R (key \<noteq> None) (self, w) = (Returns (Inr key), (self, w'))"
    "view w' = (view w)\<lparr>incoming := rest\<rparr>"
proof (cases key)
  case None
  then show ?thesis using that [of w] assms by (simp add: read_mask_def run)
next
  case (Some k)
  from rd_at [OF assms(1), of k rest 4 self] assms Some obtain w' where
    "rd R 4 (self, w) = (Returns (Inr k), (self, w'))" "view w' = (view w)\<lparr>incoming := rest\<rparr>"
    by auto
  with Some that [of w'] show ?thesis by (simp add: read_mask_def run)
qed

lemma read_length_at:
  assumes "punctual (view w)" "length_field masked n = b # xs" "incoming (view w) = xs @ rest"
    "n < 2 ^ 64"
  obtains w' where "read_length R (unat (b AND 0x7F)) (self, w) = (Returns (Inr n), (self, w'))"
    "view w' = (view w)\<lparr>incoming := rest\<rparr>"
proof -
  consider "n \<le> 125" "b = byte ((if masked then 128 else 0) + n)" "xs = []"
    | "\<not> n \<le> 125" "n \<le> 65535" "b = byte ((if masked then 128 else 0) + 126)" "xs = be_bytes 2 n"
    | "\<not> n \<le> 65535" "b = byte ((if masked then 128 else 0) + 127)" "xs = be_bytes 8 n"
    using assms(2) by (auto simp: length_field_def Let_def split: if_splits)
  then show ?thesis
  proof cases
    case 1
    then have "unat (b AND 0x7F) = n" by (simp only: length_byte_fields)
    with 1 that [of w] assms show ?thesis by (simp add: read_length_def run)
  next
    case 2
    from rd_at [OF assms(1,3), of 2 self] 2 obtain w' where
      "rd R 2 (self, w) = (Returns (Inr xs), (self, w'))" "view w' = (view w)\<lparr>incoming := rest\<rparr>"
      by auto
    moreover have "unat (b AND 0x7F) = 126" using 2 length_byte_fields(2) [of 126 masked] by simp
    moreover have "be_value xs = n" using 2 by (simp add: be_value_be_bytes_less)
    ultimately show ?thesis using that [of w'] by (simp add: read_length_def run)
  next
    case 3
    from rd_at [OF assms(1,3), of 8 self] 3 obtain w' where
      "rd R 8 (self, w) = (Returns (Inr xs), (self, w'))" "view w' = (view w)\<lparr>incoming := rest\<rparr>"
      by auto
    moreover have "unat (b AND 0x7F) = 127" using 3 length_byte_fields(2) [of 127 masked] by simp
    moreover have "be_value xs = n" using 3 assms(4) by (simp add: be_value_be_bytes_less)
    ultimately show ?thesis using that [of w'] by (simp add: read_length_def run)
  qed
qed

text \<open>
  The reader takes exactly the frame off the stream; how it then ends is up to the
  decompression of the payload, if there is one.
\<close>

lemma read_frame_any:
  assumes "punctual (view w)" "incoming (view w) = wire_frame key fin rsv1 op p @ rest"
    and "key_ok key" "frame_fits (rs_config self) fin rsv1 op (length p)"
    and z: "inflated I (rsv1 \<and> fin) p (rs_decoder self) = (r, dec)"
  obtains w' where "read_frame R I (self, w) = (read_outcome fin rsv1 op r, (self\<lparr>rs_decoder := dec\<rparr>, w'))"
    "view w' = (view w)\<lparr>incoming := rest\<rparr>"
proof -
  let ?h = "head_byte fin rsv1 op"
  obtain b xs where lf: "length_field (key \<noteq> None) (length p) = b # xs"
    using length_field_nonempty by (metis neq_Nil_conv)
  have "incoming (view w) = [?h, b] @ (xs @ unwrap_or [] key @ mask_payload key p @ rest)"
    using assms(2) by (simp add: wire_frame_def lf del: not_None_eq)
  from rd_at [OF assms(1) this, of 2 self] obtain w1 where r1:
    "rd R 2 (self, w) = (Returns (Inr [?h, b]), (self, w1))"
    "view w1 = (view w)\<lparr>incoming := xs @ unwrap_or [] key @ mask_payload key p @ rest\<rparr>" by auto
  from assms(4) have fits: "length p \<le> frame_limit (rs_config self)" "length p < 2 ^ 64"
    "is_control op \<Longrightarrow> fin" "is_control op \<Longrightarrow> length p \<le> 125"
    "rsv1 \<Longrightarrow> deflate_enabled (rs_config self)" by (auto simp: frame_fits_def)
  from read_length_at [of w1, OF _ lf, of "unwrap_or [] key @ mask_payload key p @ rest" self] r1
    assms(1) fits(2) obtain w2 where r2:
    "read_length R (unat (b AND 0x7F)) (self, w1) = (Returns (Inr (length p)), (self, w2))"
    "view w2 = (view w)\<lparr>incoming := unwrap_or [] key @ mask_payload key p @ rest\<rparr>" by auto
  from read_mask_at [of w2 key "mask_payload key p @ rest" self] r2 assms(1,3) obtain w3 where r3:
    "read_mask R (key \<noteq> None) (self, w2) = (Returns (Inr key), (self, w3))"
    "view w3 = (view w)\<lparr>incoming := mask_payload key p @ rest\<rparr>" by auto
  from read_payload_at [of w3 "mask_payload key p" rest "length p" self] r3 assms(1) obtain w4
    where r4: "read_payload R (length p) (self, w3) = (Returns (Inr (mask_payload key p)), (self, w4))"
    "view w4 = (view w)\<lparr>incoming := rest\<rparr>" by auto
  from length_field_bits [OF lf] have b: "b AND 0x80 = 0 \<longleftrightarrow> key = None"
    "length p \<le> 125 \<Longrightarrow> unat (b AND 0x7F) \<le> 125"
    by (cases key; simp)+
  have um: "(case key of Some k \<Rightarrow> mask_from k 0 (mask_payload key p) | None \<Rightarrow> mask_payload key p) = p"
    by (cases key) simp_all
  show ?thesis
  proof
    have dec: "(if rsv1 \<and> fin then run_decoder (decompress I p) else ok p) (self, w4)
        = (map_outcome (map_sum IOError id) r, (self\<lparr>rs_decoder := dec\<rparr>, w4))"
      using z by (auto simp: run_decoder_def inflated_def ok_def map_err_code split: outcome.split sum.split)
    have last: "await (if rsv1 \<and> fin then run_decoder (decompress I p) else ok p)
        (\<lambda>data. ok \<lparr>final_fragment = fin, opcode = op, payload = data, compressed = rsv1\<rparr>) (self, w4)
      = (read_outcome fin rsv1 op r, (self\<lparr>rs_decoder := dec\<rparr>, w4))"
    proof (cases r)
      case (Returns x)
      with dec show ?thesis
        by (cases x) (simp_all add: await_code read_outcome_def ok_def)
    qed (simp_all add: await_code read_outcome_def dec)
    have "read_frame R I (self, w) = await (if rsv1 \<and> fin then run_decoder (decompress I p) else ok p)
        (\<lambda>data. ok \<lparr>final_fragment = fin, opcode = op, payload = data, compressed = rsv1\<rparr>) (self, w4)"
      using fits b r1(1) r2(1) r3(1) r4(1) um
      by (cases fin; cases rsv1; cases "is_control op"; cases key;
          simp add: read_frame_def run Let_def head_byte_fields)
    with last show "read_frame R I (self, w) = (read_outcome fin rsv1 op r, (self\<lparr>rs_decoder := dec\<rparr>, w4))"
      by (rule trans [rotated])
    show "view w4 = (view w)\<lparr>incoming := rest\<rparr>" by (rule r4(2))
  qed
qed

lemma read_frame_at:
  assumes "punctual (view w)" "incoming (view w) = wire_frame key fin rsv1 op p @ rest"
    and "key_ok key" "frame_fits (rs_config self) fin rsv1 op (length p)"
    and "inflated I (rsv1 \<and> fin) p (rs_decoder self) = (Returns (Inr q), dec)"
  obtains w' where "read_frame R I (self, w)
      = (Returns (Inr \<lparr>final_fragment = fin, opcode = op, payload = q, compressed = rsv1\<rparr>),
         (self\<lparr>rs_decoder := dec\<rparr>, w'))"
    "view w' = (view w)\<lparr>incoming := rest\<rparr>"
  using read_frame_any [OF assms] by (auto simp: read_outcome_def)

end

section \<open>One turn of the loop on each kind of frame\<close>

definition frame_wire :: "bytes option \<Rightarrow> frame \<Rightarrow> bytes" where
  "frame_wire key fr = wire_frame key (final_fragment fr) False (opcode fr) (payload fr)"

context outbox
begin

lemma transmit_at:
  assumes "listening (view w)" "from_frame fr = Inr m"
  obtains w' where "transmit_message R fr (self, w) = (Returns (Inr ()), (self, w'))"
    "view w' = (view w)\<lparr>delivered := delivered (view w) @ [Inr m]\<rparr>"
proof
  have u: "opcode fr = op_code.Text \<Longrightarrow> \<exists>s. from_utf8 (payload fr) = Inr s"
    using assms(2) by (auto simp: from_frame_def split: sum.splits)
  show "transmit_message R fr (self, w)
      = (Returns (Inr ()), (self, snd (channel_send R (Inr m) w)))"
    using channel_send_ok [OF assms(1), of "Inr m"] assms(2) u
    by (cases "opcode fr = op_code.Text") (auto simp: transmit_message_def run)
  show "view (snd (channel_send R (Inr m) w))
      = (view w)\<lparr>delivered := delivered (view w) @ [Inr m]\<rparr>"
    by (rule channel_send_view [OF assms(1)])
qed

end

context byte_sink
begin

lemma reader_write_at:
  assumes "writable (view w)"
  obtains w' where "reader_write R fr (self, w) = (Returns (Inr ()), (self, w'))"
    "view w' = (view w)\<lparr>outgoing := outgoing (view w)
       @ frame_wire (frame_key R (rs_writer self) w) fr\<rparr>"
proof
  show "reader_write R fr (self, w)
      = (Returns (Inr ()), (self, snd (write_frame R (rs_writer self) fr False w)))"
    using write_frame_wire(1) [OF assms] by (simp add: reader_write_def run)
qed (simp add: write_frame_wire(2) [OF assms] frame_wire_def)

end

text \<open>What a reply looks like: a whole unmasked or correctly masked frame.\<close>

definition is_reply :: "op_code \<Rightarrow> bytes \<Rightarrow> bytes \<Rightarrow> bool" where
  "is_reply op p bs \<longleftrightarrow> (\<exists>key. key_ok key \<and> bs = wire_frame key True False op p)"

context connection
begin

lemma poll_once_at:
  assumes "punctual (view w)" "incoming (view w) = wire_frame key fin rsv1 op p @ rest"
    and "key_ok key" "frame_fits (rs_config self) fin rsv1 op (length p)"
    and "inflated I (rsv1 \<and> fin) p (rs_decoder self) = (Returns (Inr q), dec)"
  obtains w1 where "poll_once R I (self, w)
      = handle_frame R I \<lparr>final_fragment = fin, opcode = op, payload = q, compressed = rsv1\<rparr>
          (self\<lparr>rs_decoder := dec\<rparr>, w1)"
    "view w1 = (view w)\<lparr>incoming := rest\<rparr>"
proof -
  from read_frame_at [OF assms] obtain w1 where
    "read_frame R I (self, w)
      = (Returns (Inr \<lparr>final_fragment = fin, opcode = op, payload = q, compressed = rsv1\<rparr>),
         (self\<lparr>rs_decoder := dec\<rparr>, w1))" "view w1 = (view w)\<lparr>incoming := rest\<rparr>" .
  then show ?thesis using that [of w1] by (simp add: poll_once_def run)
qed

text \<open>The first frame of a fragmented message is kept.\<close>

lemma poll_first_fragment:
  assumes "punctual (view w)" "incoming (view w) = wire_frame key False rsv1 op p @ rest"
    and "key_ok key" "frame_fits (rs_config self) False rsv1 op (length p)"
    and "op = op_code.Text \<or> op = op_code.Binary" "fragmented self = None"
  obtains w' where "poll_once R I (self, w)
      = (Returns (Inr True), (self\<lparr>fragmented := Some \<lparr>fragments = p, fm_op_code = op,
           fm_compressed = rsv1\<rparr>\<rparr>, w'))"
    "view w' = (view w)\<lparr>incoming := rest\<rparr>"
proof -
  from poll_once_at [OF assms(1-4), of I p "rs_decoder self"] obtain w1 where
    w1: "poll_once R I (self, w)
      = handle_frame R I \<lparr>final_fragment = False, opcode = op, payload = p, compressed = rsv1\<rparr>
          (self, w1)" "view w1 = (view w)\<lparr>incoming := rest\<rparr>" by (auto simp: inflated_def run)
  show ?thesis
  proof (rule that)
    show "poll_once R I (self, w)
      = (Returns (Inr True), (self\<lparr>fragmented := Some \<lparr>fragments = p, fm_op_code = op,
           fm_compressed = rsv1\<rparr>\<rparr>, w1))"
      using assms(5,6) w1(1) by (auto simp: handle_frame_def handle_data_def run)
  qed (rule w1(2))
qed

text \<open>A further frame that is not the last is appended, within the message bound.\<close>

lemma poll_next_fragment:
  assumes "punctual (view w)" "incoming (view w) = wire_frame key False False op_code.Continue p @ rest"
    and "key_ok key" "frame_fits (rs_config self) False False op_code.Continue (length p)"
    and "fragmented self = Some fm"
    and "length (fragments fm) + length p \<le> message_limit (rs_config self)"
  obtains w' where "poll_once R I (self, w)
      = (Returns (Inr True), (self\<lparr>fragmented := Some (fm\<lparr>fragments := fragments fm @ p\<rparr>)\<rparr>, w'))"
    "view w' = (view w)\<lparr>incoming := rest\<rparr>"
proof -
  from poll_once_at [OF assms(1-4), of I p "rs_decoder self"] obtain w1 where
    w1: "poll_once R I (self, w)
      = handle_frame R I \<lparr>final_fragment = False, opcode = op_code.Continue, payload = p,
          compressed = False\<rparr> (self, w1)" "view w1 = (view w)\<lparr>incoming := rest\<rparr>"
    by (auto simp: inflated_def run)
  show ?thesis
  proof (rule that)
    show "poll_once R I (self, w)
      = (Returns (Inr True), (self\<lparr>fragmented := Some (fm\<lparr>fragments := fragments fm @ p\<rparr>)\<rparr>, w1))"
      using assms(5,6) w1(1) by (simp add: handle_frame_def handle_continue_def run Let_def)
  qed (rule w1(2))
qed

text \<open>The last frame completes the message, which is delivered.\<close>

lemma poll_last_fragment:
  assumes "punctual (view w)" "incoming (view w) = wire_frame key True False op_code.Continue p @ rest"
    and "key_ok key" "frame_fits (rs_config self) True False op_code.Continue (length p)"
    and "fragmented self = Some fm"
    and "length (fragments fm) + length p \<le> message_limit (rs_config self)"
    and "inflated I (fm_compressed fm) (fragments fm @ p) (rs_decoder self) = (Returns (Inr q), dec)"
    and "listening (view w)" "from_frame (new_frame True (fm_op_code fm) q False) = Inr m"
  obtains w' where "poll_once R I (self, w)
      = (Returns (Inr True), (self\<lparr>fragmented := None, rs_decoder := dec\<rparr>, w'))"
    "view w' = (view w)\<lparr>incoming := rest, delivered := delivered (view w) @ [Inr m]\<rparr>"
proof -
  from poll_once_at [OF assms(1-4), of I p "rs_decoder self"] obtain w1 where
    w1: "poll_once R I (self, w)
      = handle_frame R I \<lparr>final_fragment = True, opcode = op_code.Continue, payload = p,
          compressed = False\<rparr> (self, w1)" "view w1 = (view w)\<lparr>incoming := rest\<rparr>"
    by (auto simp: inflated_def run)
  from transmit_at [of w1, OF _ assms(9)] w1(2) assms(8) obtain w2 where
    w2: "transmit_message R (new_frame True (fm_op_code fm) q False)
           (self\<lparr>fragmented := None, rs_decoder := dec\<rparr>, w1)
       = (Returns (Inr ()), (self\<lparr>fragmented := None, rs_decoder := dec\<rparr>, w2))"
      "view w2 = (view w)\<lparr>incoming := rest, delivered := delivered (view w) @ [Inr m]\<rparr>" by auto
  show ?thesis
  proof (rule that)
    show "poll_once R I (self, w)
      = (Returns (Inr True), (self\<lparr>fragmented := None, rs_decoder := dec\<rparr>, w2))"
      using assms(5-7) w1(1) w2(1)
      by (auto simp: handle_frame_def handle_continue_def run Let_def run_decoder_def inflated_def
          split: if_splits)
  qed (rule w2(2))
qed

text \<open>A message in one frame is delivered at once, decompressed if the frame says so.\<close>

lemma poll_whole_message:
  assumes "punctual (view w)" "incoming (view w) = wire_frame key True rsv1 op p @ rest"
    and "key_ok key" "frame_fits (rs_config self) True rsv1 op (length p)"
    and "inflated I rsv1 p (rs_decoder self) = (Returns (Inr q), dec)"
    and "op = op_code.Text \<or> op = op_code.Binary" "fragmented self = None"
    and "listening (view w)" "from_frame (new_frame True op q rsv1) = Inr m"
  obtains w' where "poll_once R I (self, w) = (Returns (Inr True), (self\<lparr>rs_decoder := dec\<rparr>, w'))"
    "view w' = (view w)\<lparr>incoming := rest, delivered := delivered (view w) @ [Inr m]\<rparr>"
proof -
  from poll_once_at [OF assms(1-4), of I q dec] assms(5) obtain w1 where
    w1: "poll_once R I (self, w)
      = handle_frame R I (new_frame True op q rsv1) (self\<lparr>rs_decoder := dec\<rparr>, w1)"
      "view w1 = (view w)\<lparr>incoming := rest\<rparr>" by (auto simp: new_frame_def)
  from transmit_at [of w1 _ _ "self\<lparr>rs_decoder := dec\<rparr>", OF _ assms(9)] w1(2) assms(8) obtain w2
    where w2: "transmit_message R (new_frame True op q rsv1) (self\<lparr>rs_decoder := dec\<rparr>, w1)
       = (Returns (Inr ()), (self\<lparr>rs_decoder := dec\<rparr>, w2))"
      "view w2 = (view w)\<lparr>incoming := rest, delivered := delivered (view w) @ [Inr m]\<rparr>" by auto
  show ?thesis
  proof (rule that)
    show "poll_once R I (self, w) = (Returns (Inr True), (self\<lparr>rs_decoder := dec\<rparr>, w2))"
      using assms(6,7) w1(1) w2(1) by (auto simp: handle_frame_def handle_data_def run)
  qed (rule w2(2))
qed

text \<open>A ping is answered with its payload, a pong is absorbed, a close is answered and ends the loop.\<close>

lemma poll_ping_any:
  assumes "punctual (view w)" "incoming (view w) = wire_frame key True z op_code.Ping p @ rest"
    and "key_ok key" "frame_fits (rs_config self) True z op_code.Ping (length p)"
    and "inflated I z p (rs_decoder self) = (Returns (Inr q), dec)" "writable (view w)"
  obtains w' bs where "poll_once R I (self, w) = (Returns (Inr True), (self\<lparr>rs_decoder := dec\<rparr>, w'))"
    "view w' = (view w)\<lparr>incoming := rest, outgoing := outgoing (view w) @ bs\<rparr>"
    "is_reply op_code.Pong q bs"
proof -
  from poll_once_at [OF assms(1-4), of I q dec] assms(5) obtain w1 where
    w1: "poll_once R I (self, w) = handle_frame R I
          \<lparr>final_fragment = True, opcode = op_code.Ping, payload = q, compressed = z\<rparr> (self\<lparr>rs_decoder := dec\<rparr>, w1)"
      "view w1 = (view w)\<lparr>incoming := rest\<rparr>" by auto
  from reader_write_at [of w1 "new_frame True op_code.Pong q False" "self\<lparr>rs_decoder := dec\<rparr>"] w1(2) assms(6)
  obtain w2 where w2: "reader_write R (new_frame True op_code.Pong q False) (self\<lparr>rs_decoder := dec\<rparr>, w1)
      = (Returns (Inr ()), (self\<lparr>rs_decoder := dec\<rparr>, w2))"
      "view w2 = (view w)\<lparr>incoming := rest, outgoing := outgoing (view w)
         @ frame_wire (frame_key R (rs_writer self) w1) (new_frame True op_code.Pong q False)\<rparr>" by auto
  show ?thesis
  proof (rule that)
    show "poll_once R I (self, w) = (Returns (Inr True), (self\<lparr>rs_decoder := dec\<rparr>, w2))"
      using w1(1) w2(1) by (simp add: handle_frame_def send_pong_frame_def run)
    show "is_reply op_code.Pong q
        (frame_wire (frame_key R (rs_writer self) w1) (new_frame True op_code.Pong q False))"
      unfolding is_reply_def
      by (intro exI [of _ "frame_key R (rs_writer self) w1"]) (simp add: frame_wire_def)
  qed (rule w2(2))
qed

lemma poll_ping:
  assumes "punctual (view w)" "incoming (view w) = wire_frame key True False op_code.Ping p @ rest"
    and "key_ok key" "frame_fits (rs_config self) True False op_code.Ping (length p)"
    and "writable (view w)"
  obtains w' bs where "poll_once R I (self, w) = (Returns (Inr True), (self, w'))"
    "view w' = (view w)\<lparr>incoming := rest, outgoing := outgoing (view w) @ bs\<rparr>"
    "is_reply op_code.Pong p bs"
  using poll_ping_any [OF assms(1-4) _ assms(5), of I p "rs_decoder self"] by (auto simp: inflated_def ok_def)

lemma poll_pong:
  assumes "punctual (view w)" "incoming (view w) = wire_frame key True False op_code.Pong p @ rest"
    and "key_ok key" "frame_fits (rs_config self) True False op_code.Pong (length p)"
  obtains w' where "poll_once R I (self, w) = (Returns (Inr True), (self, w'))"
    "view w' = (view w)\<lparr>incoming := rest\<rparr>"
proof -
  from poll_once_at [OF assms(1-4), of I p "rs_decoder self"] obtain w1 where
    w1: "poll_once R I (self, w) = handle_frame R I (new_frame True op_code.Pong p False) (self, w1)"
      "view w1 = (view w)\<lparr>incoming := rest\<rparr>" by (auto simp: inflated_def run new_frame_def)
  then show ?thesis using that [of w1] by (simp add: handle_frame_def run)
qed

lemma poll_close:
  assumes "punctual (view w)" "incoming (view w) = wire_frame key True False op_code.Close p @ rest"
    and "key_ok key" "frame_fits (rs_config self) True False op_code.Close (length p)"
    and "writable (view w)"
  obtains w' bs where "poll_once R I (self, w) = (Returns (Inr False), (self, w'))"
    "view w' = (view w)\<lparr>incoming := rest, outgoing := outgoing (view w) @ bs\<rparr>"
    "is_reply op_code.Close [] bs"
proof -
  from poll_once_at [OF assms(1-4), of I p "rs_decoder self"] obtain w1 where
    w1: "poll_once R I (self, w) = handle_frame R I (new_frame True op_code.Close p False) (self, w1)"
      "view w1 = (view w)\<lparr>incoming := rest\<rparr>" by (auto simp: inflated_def run new_frame_def)
  from reader_write_at [of w1 "new_frame True op_code.Close [] False" self] w1(2) assms(5)
  obtain w2 where w2: "reader_write R (new_frame True op_code.Close [] False) (self, w1)
      = (Returns (Inr ()), (self, w2))"
      "view w2 = (view w)\<lparr>incoming := rest, outgoing := outgoing (view w)
         @ frame_wire (frame_key R (rs_writer self) w1) (new_frame True op_code.Close [] False)\<rparr>" by auto
  show ?thesis
  proof (rule that)
    show "poll_once R I (self, w) = (Returns (Inr False), (self, w2))"
      using w1(1) w2(1) by (simp add: handle_frame_def send_close_frame_def run)
    show "is_reply op_code.Close []
        (frame_wire (frame_key R (rs_writer self) w1) (new_frame True op_code.Close [] False))"
      unfolding is_reply_def
      by (intro exI [of _ "frame_key R (rs_writer self) w1"]) (simp add: frame_wire_def)
  qed (rule w2(2))
qed

end

end
