(* ===== verification/Polling.thy ===== *)
theory Polling
  imports Reader
begin

text \<open>
  The reader over its whole life: what a frame accepted by \<open>read_frame\<close> satisfies, the states
  reached by polling, their invariant, what is delivered in them, and the end of the loop.
\<close>

section \<open>What an accepted frame satisfies\<close>

definition accepted :: "web_socket_config \<Rightarrow> frame \<Rightarrow> bool" where
  "accepted config fr \<longleftrightarrow>
     (is_control (opcode fr) \<longrightarrow> final_fragment fr)
     \<and> (compressed fr \<longrightarrow> deflate_enabled config)
     \<and> (\<not> (compressed fr \<and> final_fragment fr) \<longrightarrow>
          length (payload fr) \<le> frame_limit config
          \<and> (is_control (opcode fr) \<longrightarrow> length (payload fr) \<le> 125))"

text \<open>The bytes the peer has still to send.\<close>

definition left :: "('w \<Rightarrow> link) \<Rightarrow> 'd read_stream \<times> 'w \<Rightarrow> nat" where
  "left view s = length (incoming (view (snd s)))"

definition same_output :: "('w \<Rightarrow> link) \<Rightarrow> 'd read_stream \<times> 'w \<Rightarrow> 'd read_stream \<times> 'w \<Rightarrow> bool" where
  "same_output view s s' \<longleftrightarrow> only_input (view (snd s)) (view (snd s'))"

lemma same_output_refl [simp]: "same_output view s s"
  by (simp add: same_output_def only_input_def)

lemma same_output_trans: "same_output view s s1 \<Longrightarrow> same_output view s1 s2 \<Longrightarrow> same_output view s s2"
  by (simp add: same_output_def only_input_def)

context byte_source
begin

lemma rd_InrD:
  assumes "rd R n s = (Returns (Inr xs), s')"
  shows "length xs = n" "left view s' + n = left view s" "fst s' = fst s" "same_output view s s'"
proof -
  from assms have r: "read_exact R n (snd s) = (Returns (Inr xs), snd s')" "fst s' = fst s"
    by (simp_all add: rd_def returned)
  have n: "n \<le> length (incoming (view (snd s)))"
    using read_exact_short [of "snd s" n] r(1) by force
  show "length xs = n" "left view s' + n = left view s"
    using n r read_exact_ok [OF n] read_exact_rest [OF n] by (simp_all add: left_def)
  show "fst s' = fst s" by (rule r(2))
  show "same_output view s s'"
    using read_exact_frame [of "snd s" n] r(1) by (simp add: same_output_def)
qed

lemma read_length_InrD:
  assumes "read_length R n s = (Returns (Inr k), s')"
  shows "left view s' \<le> left view s" "fst s' = fst s" "same_output view s s'" "n \<le> 125 \<Longrightarrow> k = n"
  using assms by (auto simp: read_length_def returned split: if_splits dest: rd_InrD)

lemma read_mask_InrD:
  assumes "read_mask R masked s = (Returns (Inr key), s')"
  shows "left view s' \<le> left view s" "fst s' = fst s" "same_output view s s'"
  using assms by (auto simp: read_mask_def returned split: if_splits dest: rd_InrD)

lemma read_payload_InrD:
  assumes "read_payload R n s = (Returns (Inr xs), s')"
  shows "length xs = n" "left view s' \<le> left view s" "fst s' = fst s" "same_output view s s'"
proof -
  from assms have r: "timeout_read_exact R 5 n (snd s) = (Returns (Inr (Inr xs)), snd s')" "fst s' = fst s"
    by (auto simp: read_payload_def returned sum.case_eq_if split: if_splits)
  show "length xs = n" "left view s' \<le> left view s"
    using timed_sound [of 5 n "snd s" xs] r by (auto simp: left_def)
  show "fst s' = fst s" by (rule r(2))
  show "same_output view s s'"
    using timed_frame [of "snd s" 5 n] r(1) by (simp add: same_output_def)
qed

lemma run_decoder_InrD:
  assumes "run_decoder m s = (Returns (Inr x), s')"
  shows "snd s' = snd s" "fst s' = (fst s)\<lparr>rs_decoder := rs_decoder (fst s')\<rparr>"
  using assms by (auto simp: run_decoder_def returned split: prod.splits)

lemma read_frame_steps:
  assumes "read_frame R I s = (Returns (Inr fr), s')"
  shows "\<exists>header s1 len s2 key s3 data s4.
      rd R 2 s = (Returns (Inr header), s1)
    \<and> read_length R (unat (header ! 1 AND 0x7F)) s1 = (Returns (Inr len), s2)
    \<and> read_mask R (header ! 1 AND 0x80 \<noteq> 0) s2 = (Returns (Inr key), s3)
    \<and> read_payload R len s3 = (Returns (Inr data), s4)
    \<and> (if compressed fr \<and> final_fragment fr
        then run_decoder (decompress I (case key of Some k \<Rightarrow> mask_from k 0 data | None \<Rightarrow> data))
        else ok (case key of Some k \<Rightarrow> mask_from k 0 data | None \<Rightarrow> data)) s4
      = (Returns (Inr (payload fr)), s')
    \<and> \<not> (header ! 0 AND 0x20 \<noteq> 0 \<or> header ! 0 AND 0x10 \<noteq> 0
         \<or> compressed fr \<and> \<not> deflate_enabled (rs_config (fst s1)))
    \<and> \<not> (\<not> final_fragment fr \<and> is_control (opcode fr))
    \<and> \<not> (125 < unat (header ! 1 AND 0x7F) \<and> is_control (opcode fr))
    \<and> \<not> frame_limit (rs_config (fst s1)) < len"
  using assms
  apply (simp only: read_frame_def Let_def await_Inr_iff ensure_iff get_self_def of_result_def
      ok_def prod.inject outcome.inject sum.inject)
  apply (elim exE conjE)
  apply hypsubst_thin
  apply (intro exI conjI; (assumption | simp only: frame.simps not_False_eq_True))
  done

lemma read_frame_InrD:
  assumes "read_frame R I s = (Returns (Inr fr), s')"
  shows "left view s' + 2 \<le> left view s" "same_output view s s'"
    "fst s' = (fst s)\<lparr>rs_decoder := rs_decoder (fst s')\<rparr>" "accepted (rs_config (fst s)) fr"
proof -
  from read_frame_steps [OF assms] obtain header s1 len s2 key s3 data s4 where
    r: "rd R 2 s = (Returns (Inr header), s1)"
      "read_length R (unat (header ! 1 AND 0x7F)) s1 = (Returns (Inr len), s2)"
      "read_mask R (header ! 1 AND 0x80 \<noteq> 0) s2 = (Returns (Inr key), s3)"
      "read_payload R len s3 = (Returns (Inr data), s4)" and
    z: "(if compressed fr \<and> final_fragment fr
         then run_decoder (decompress I (case key of Some k \<Rightarrow> mask_from k 0 data | None \<Rightarrow> data))
         else ok (case key of Some k \<Rightarrow> mask_from k 0 data | None \<Rightarrow> data)) s4
        = (Returns (Inr (payload fr)), s')" and
    c: "compressed fr \<Longrightarrow> deflate_enabled (rs_config (fst s1))"
      "is_control (opcode fr) \<Longrightarrow> final_fragment fr"
      "is_control (opcode fr) \<Longrightarrow> unat (header ! 1 AND 0x7F) \<le> 125"
      "len \<le> frame_limit (rs_config (fst s1))"
    unfolding not_less de_Morgan_conj de_Morgan_disj by blast
  note d = rd_InrD [OF r(1)] read_length_InrD [OF r(2)] read_mask_InrD [OF r(3)]
    read_payload_InrD [OF r(4)]
  have s': "left view s' = left view s4" "same_output view s4 s'"
    "fst s' = (fst s4)\<lparr>rs_decoder := rs_decoder (fst s')\<rparr>"
    using z by (auto simp: left_def same_output_def only_input_def ok_def split: if_splits
        dest: run_decoder_InrD)
  have q: "length (payload fr) = length data" if "\<not> (compressed fr \<and> final_fragment fr)"
  proof -
    have "payload fr = (case key of Some k \<Rightarrow> mask_from k 0 data | None \<Rightarrow> data)"
      using z that by (auto simp: ok_def)
    then show ?thesis by (simp split: option.split)
  qed
  show "left view s' + 2 \<le> left view s" using d s'(1) by simp
  show "same_output view s s'" using d s'(2) by (blast intro: same_output_trans)
  show "fst s' = (fst s)\<lparr>rs_decoder := rs_decoder (fst s')\<rparr>" using d s'(3) by simp
  show "accepted (rs_config (fst s)) fr"
    using c d q by (auto simp: accepted_def)
qed

end

section \<open>The states reached\<close>

text \<open>The states the loop passes through, each turn having ended with the loop going on.\<close>

inductive polls :: "'w runtime \<Rightarrow> 'd inflater \<Rightarrow> 'd read_stream \<times> 'w \<Rightarrow> 'd read_stream \<times> 'w \<Rightarrow> bool"
  for R :: "'w runtime" and I :: "'d inflater" where
  polls_start: "polls R I s s"
| polls_turn: "poll_once R I s = (Returns (Inr True), s1) \<Longrightarrow> polls R I s1 s2 \<Longrightarrow> polls R I s s2"

inductive_cases polls_turnE: "polls R I s s'"

lemma polls_trans: "polls R I s s1 \<Longrightarrow> polls R I s1 s2 \<Longrightarrow> polls R I s s2"
  by (induction rule: polls.induct) (auto intro: polls.intros)

lemma polls_once: "poll_once R I s = (Returns (Inr True), s') \<Longrightarrow> polls R I s s'"
  by (blast intro: polls.intros)

text \<open>The loop passes through the states reached: what it ends with, it ends with from them.\<close>

lemma poll_messages_turn:
  "poll_once R I s = (Returns (Inr True), s1) \<Longrightarrow> poll_messages R I s = poll_messages R I s1"
  by (subst poll_messages.simps) simp

lemma poll_messages_polls: "polls R I s s' \<Longrightarrow> poll_messages R I s = poll_messages R I s'"
  by (induction rule: polls.induct) (simp_all add: poll_messages_turn)

lemma poll_messages_last:
  assumes "fst (poll_once R I s) \<noteq> Returns (Inr True)"
  shows "poll_messages R I s
     = Some (case fst (poll_once R I s) of
               Returns r \<Rightarrow> Returns (map_sum id (\<lambda>_. ()) r) | Hangs \<Rightarrow> Hangs | Panics \<Rightarrow> Panics,
             snd (poll_once R I s))"
  using assms by (subst poll_messages.simps)
    (auto split: prod.split outcome.split sum.split)

section \<open>Handling a frame\<close>

text \<open>What one frame can complete: itself, or the fragmented message it is the last frame of.\<close>

definition completes :: "'d inflater \<Rightarrow> 'd read_stream \<Rightarrow> frame \<Rightarrow> message \<Rightarrow> bool" where
  "completes I self fr m \<longleftrightarrow>
     final_fragment fr \<and>
     (case fragmented self of
        None \<Rightarrow> (opcode fr = op_code.Text \<or> opcode fr = op_code.Binary) \<and> from_frame fr = Inr m
      | Some fm \<Rightarrow>
          opcode fr = op_code.Continue
          \<and> length (fragments fm @ payload fr) \<le> message_limit (rs_config self)
          \<and> (\<exists>q dec. inflated I (fm_compressed fm) (fragments fm @ payload fr) (rs_decoder self)
                       = (Returns (Inr q), dec)
                  \<and> from_frame (new_frame True (fm_op_code fm) q False) = Inr m))"

definition delivers :: "('w \<Rightarrow> link) \<Rightarrow> 'w \<Rightarrow> 'w \<Rightarrow> (message \<Rightarrow> bool) \<Rightarrow> bool" where
  "delivers view w w' P \<longleftrightarrow>
     delivered (view w') = delivered (view w)
     \<or> (\<exists>m. delivered (view w') = delivered (view w) @ [Inr m] \<and> P m)"

lemma delivers_same [simp]: "delivers view w w P"
  by (simp add: delivers_def)

lemma delivers_mono: "delivers view w w' P \<Longrightarrow> (\<And>m. P m \<Longrightarrow> Q m) \<Longrightarrow> delivers view w w' Q"
  by (auto simp: delivers_def)

context outbox
begin

lemma transmit_delivers:
  "delivers view w (snd (snd (transmit_message R fr (self, w)))) (\<lambda>m. from_frame fr = Inr m)"
  "fst (snd (transmit_message R fr (self, w))) = self"
proof -
  have send: "delivered (view (snd (channel_send R (Inr m) w))) = delivered (view w)
      \<or> delivered (view (snd (channel_send R (Inr m) w))) = delivered (view w) @ [Inr m]" for m
    using channel_send_delivered channel_send_failed by blast
  show "delivers view w (snd (snd (transmit_message R fr (self, w)))) (\<lambda>m. from_frame fr = Inr m)"
    using send by (auto simp: transmit_message_def delivers_def await_def of_result_def ok_def io_def
        snd_map_err split: outcome.split sum.split)
  show "fst (snd (transmit_message R fr (self, w))) = self"
    by (auto simp: transmit_message_def await_def of_result_def ok_def io_def
        split: outcome.split sum.split)
qed

end

context byte_sink
begin

text \<open>However a write ends, it touches the output side only.\<close>

lemma wr_preserves [preserved]: "preserves (\<lambda>w. only_output v (view w)) (wr R bs)"
  using write_all_frame by (auto simp: wr_def preserves_def snd_map_err only_output_def)

lemma draw_preserves [preserved]: "preserves (\<lambda>w. only_output v (view w)) (draw_u8 R)"
  by (simp add: preserves_def draw_run)

lemma write_frame_preserves [preserved]:
  "preserves (\<lambda>w. only_output v (view w)) (write_frame R wtr fr rsv1)"
  unfolding write_frame_def write_frame_client_def write_frame_server_def Let_def
  by (cases "kind wtr"; simp only: writer_kind.simps; intro preserved)

lemma reader_write_frame:
  "fst (snd (reader_write R fr (self, w))) = self"
  "only_output (view w) (view (snd (snd (reader_write R fr (self, w)))))"
  using preservesD [OF write_frame_preserves, of "view w" w "rs_writer self" fr False]
  by (simp_all add: reader_write_def run only_output_def)

end

context connection
begin

lemma handle_data_effect:
  assumes "opcode fr = op_code.Text \<or> opcode fr = op_code.Binary"
  shows "delivers view w (snd (snd (handle_data R fr (self, w)))) (completes I self fr)"
  using assms transmit_delivers [where w = w and fr = fr and self = self]
  by (auto simp: handle_data_def run completes_def delivers_def)

lemma handle_continue_effect:
  assumes "opcode fr = op_code.Continue"
  shows "delivers view w (snd (snd (handle_continue R I fr (self, w)))) (completes I self fr)"
proof (cases "fragmented self")
  case None
  then show ?thesis by (simp add: handle_continue_def run)
next
  case (Some fm)
  show ?thesis
  proof (cases "message_limit (rs_config self) < length (fragments fm @ payload fr)
      \<or> \<not> final_fragment fr")
    case True
    with Some show ?thesis
      by (cases "message_limit (rs_config self) < length (fragments fm @ payload fr)")
         (auto simp: handle_continue_def run Let_def)
  next
    case False
    obtain r dec where d: "inflated I (fm_compressed fm) (fragments fm @ payload fr) (rs_decoder self)
        = (r, dec)" by force
    have c: "completes I self fr m" if "r = Returns (Inr q)"
        "from_frame (new_frame True (fm_op_code fm) q False) = Inr m" for q m
      using that False Some d assms by (auto simp: completes_def)
    have s: "snd (snd (handle_continue R I fr (self, w)))
        = (case r of Returns (Inr q) \<Rightarrow>
             snd (snd (transmit_message R (new_frame True (fm_op_code fm) q False)
               (self\<lparr>fragmented := None, rs_decoder := dec\<rparr>, w))) | _ \<Rightarrow> w)"
      using False Some d
      by (cases "fm_compressed fm")
         (auto simp: handle_continue_def run Let_def inflated_def run_decoder_def await_def map_err_def
           split: outcome.split sum.split)
    then show ?thesis
    proof (cases "\<exists>q. r = Returns (Inr q)")
      case True
      then obtain q where q: "r = Returns (Inr q)" by blast
      have "delivers view w
          (snd (snd (transmit_message R (new_frame True (fm_op_code fm) q False)
             (self\<lparr>fragmented := None, rs_decoder := dec\<rparr>, w)))) (completes I self fr)"
        by (rule delivers_mono [OF transmit_delivers(1)]) (rule c [OF q])
      with s q show ?thesis by simp
    qed (auto simp: s split: outcome.split sum.split)
  qed
qed

lemma handle_frame_delivers:
  "delivers view w (snd (snd (handle_frame R I fr (self, w)))) (completes I self fr)"
proof -
  have w: "snd (snd (await m (\<lambda>_. ok x) s)) = snd (snd (m s))" for m x s
    by (auto simp: await_def ok_def split: outcome.split sum.split)
  have "delivers view w (snd (snd (reader_write R fr' (self, w)))) P" for fr' P
    using reader_write_frame(2) [of w fr' self] by (simp add: delivers_def only_output_def)
  then show ?thesis
    using handle_data_effect [where fr = fr and w = w and self = self]
      handle_continue_effect [where fr = fr and w = w and self = self]
    by (cases "opcode fr")
       (simp_all add: handle_frame_def w send_pong_frame_def send_close_frame_def, simp add: ok_def)
qed

text \<open>Handling a frame reads nothing.\<close>

lemma transmit_preserves [preserved]:
  "preserves (\<lambda>s. incoming (view (snd s)) = c) (transmit_message R fr)"
proof -
  have "preserves (\<lambda>w. incoming (view w) = c) (channel_send R m)" for m
    using channel_send_frame by (auto simp: preserves_def only_channel_def)
  then show ?thesis
    unfolding transmit_message_def by (intro preserved) simp
qed

lemma reader_write_preserves [preserved]:
  "preserves (\<lambda>s. incoming (view (snd s)) = c) (reader_write R fr)"
  using reader_write_frame(2) [of _ fr] by (auto simp: preserves_def only_output_def)

lemma put_self_preserves [preserved]: "preserves (\<lambda>s. P (snd s)) (put_self r)"
  by (simp add: preserves_def put_self_def)

lemma run_decoder_preserves [preserved]: "preserves (\<lambda>s. P (snd s)) (run_decoder m)"
  by (auto simp: preserves_def run_decoder_def snd_map_err split: prod.split)

lemma handle_frame_preserves: "preserves (\<lambda>s. incoming (view (snd s)) = c) (handle_frame R I fr)"
proof -
  have "preserves (\<lambda>s. incoming (view (snd s)) = c) (handle_continue R I fr)"
    unfolding handle_continue_def Let_def
    by (intro preserved; (split option.split, intro allI impI conjI preserved)?)
  moreover have "preserves (\<lambda>s. incoming (view (snd s)) = c) (handle_data R fr)"
    unfolding handle_data_def by (intro preserved)
  ultimately show ?thesis
    unfolding handle_frame_def send_pong_frame_def send_close_frame_def
    by (cases "opcode fr"; simp only: op_code.simps; intro preserved)
qed

lemma poll_once_consumes:
  assumes "poll_once R I s = (Returns (Inr again), s')"
  shows "left view s' + 2 \<le> left view s"
proof -
  from assms obtain fr s1 where r: "read_frame R I s = (Returns (Inr fr), s1)"
      "handle_frame R I fr s1 = (Returns (Inr again), s')"
    by (auto simp: poll_once_def await_Inr_iff)
  from preservesD [OF handle_frame_preserves [of "incoming (view (snd s1))" I fr], of s1] r(2)
  have "left view s' = left view s1" by (simp add: left_def)
  with read_frame_InrD(1) [OF r(1)] show ?thesis by simp
qed

text \<open>So the loop ends: every turn that goes on has taken two bytes of what the peer sends.\<close>

lemma poll_messages_ends:
  "\<exists>s1. polls R I s s1 \<and> fst (poll_once R I s1) \<noteq> Returns (Inr True)
      \<and> left view s1 \<le> left view s"
proof (induction "left view s" arbitrary: s rule: less_induct)
  case less
  show ?case
  proof (cases "fst (poll_once R I s) = Returns (Inr True)")
    case False
    then show ?thesis by (blast intro: polls_start)
  next
    case True
    then have p: "poll_once R I s = (Returns (Inr True), snd (poll_once R I s))"
      by (simp add: prod_eq_iff)
    with poll_once_consumes [OF p] less [of "snd (poll_once R I s)"] show ?thesis
      by (fastforce intro: polls_turn)
  qed
qed

end

section \<open>The invariant of the reader\<close>

definition reader_inv :: "'d read_stream \<Rightarrow> bool" where
  "reader_inv self \<longleftrightarrow>
     (case fragmented self of
        None \<Rightarrow> True
      | Some fm \<Rightarrow>
          (fm_op_code fm = op_code.Text \<or> fm_op_code fm = op_code.Binary)
          \<and> length (fragments fm) \<le> max (frame_limit (rs_config self)) (message_limit (rs_config self))
          \<and> (fm_compressed fm \<longrightarrow> deflate_enabled (rs_config self)))"

lemma reader_inv_new [simp]: "reader_inv (new_read_stream wtr config dec)"
  by (simp add: reader_inv_def new_read_stream_def)

definition same_setup :: "'d read_stream \<Rightarrow> 'd read_stream \<Rightarrow> bool" where
  "same_setup self self' \<longleftrightarrow> rs_config self' = rs_config self \<and> rs_writer self' = rs_writer self"

lemma same_setup_simps [simp]:
  "same_setup self self" "same_setup self (self\<lparr>fragmented := x\<rparr>)"
  "same_setup self (self\<lparr>rs_decoder := d\<rparr>)"
  "same_setup self (self\<lparr>fragmented := x, rs_decoder := d\<rparr>)"
  by (simp_all add: same_setup_def)

text \<open>
  What a delivered message satisfies: text is a valid string, and without compression its
  size is bounded. The bound on a message in one frame is \<open>max_frame_size\<close>.
\<close>

definition deliverable :: "web_socket_config \<Rightarrow> message \<Rightarrow> bool" where
  "deliverable config m \<longleftrightarrow>
     message_ok m
     \<and> (\<not> deflate_enabled config \<longrightarrow>
          length (as_binary m) \<le> max (frame_limit config) (message_limit config))"

lemma completes_deliverable:
  assumes "completes I self fr m" "accepted (rs_config self) fr" "reader_inv self"
  shows "deliverable (rs_config self) m"
proof (cases "fragmented self")
  case None
  with assms show ?thesis
    by (auto simp: completes_def accepted_def deliverable_def dest!: from_frame_InrD)
next
  case (Some fm)
  with assms obtain q dec where
    z: "inflated I (fm_compressed fm) (fragments fm @ payload fr) (rs_decoder self) = (Returns (Inr q), dec)"
      "from_frame (new_frame True (fm_op_code fm) q False) = Inr m"
      "length (fragments fm @ payload fr) \<le> message_limit (rs_config self)"
      "fm_compressed fm \<longrightarrow> deflate_enabled (rs_config self)"
    by (auto simp: completes_def reader_inv_def)
  from from_frame_InrD [OF z(2)] have m: "message_ok m" "as_binary m = q" by simp_all
  show ?thesis
  proof (cases "fm_compressed fm")
    case True
    with z(4) m show ?thesis by (simp add: deliverable_def)
  next
    case False
    with z(1) have "q = fragments fm @ payload fr" by (simp add: inflated_def ok_def)
    with z(3) m show ?thesis by (simp add: deliverable_def le_max_iff_disj)
  qed
qed

context connection
begin

lemma transmit_InrD:
  assumes "transmit_message R fr s = (r, s')"
  shows "fst s' = fst s"
  using assms transmit_delivers(2) [of fr "fst s" "snd s"] by simp

lemma reader_write_InrD:
  assumes "reader_write R fr s = (r, s')"
  shows "fst s' = fst s"
  using assms reader_write_frame(1) [of fr "fst s" "snd s"] by simp

lemma handle_data_inv:
  assumes "handle_data R fr s = (Returns (Inr u), s')" "accepted (rs_config (fst s)) fr"
    "reader_inv (fst s)" "opcode fr = op_code.Text \<or> opcode fr = op_code.Binary"
  shows "reader_inv (fst s') \<and> same_setup (fst s) (fst s')"
proof (cases "final_fragment fr")
  case True
  with assms show ?thesis
    by (auto simp: handle_data_def returned split: if_splits dest!: transmit_InrD)
next
  case False
  with assms show ?thesis
    by (auto simp: handle_data_def returned accepted_def reader_inv_def split: if_splits)
qed

lemma handle_continue_inv:
  assumes "handle_continue R I fr s = (Returns (Inr u), s')" "reader_inv (fst s)"
  shows "reader_inv (fst s') \<and> same_setup (fst s) (fst s')"
proof (cases "fragmented (fst s)")
  case None
  with assms show ?thesis by (simp add: handle_continue_def returned)
next
  case (Some fm)
  show ?thesis
  proof (cases "final_fragment fr")
    case False
    with assms Some show ?thesis
      by (auto simp: handle_continue_def returned Let_def reader_inv_def)
  next
    case True
    with assms Some obtain data s1 where
      r: "(if fm_compressed fm then run_decoder (decompress I (fragments fm @ payload fr))
           else ok (fragments fm @ payload fr)) ((fst s)\<lparr>fragmented := None\<rparr>, snd s)
          = (Returns (Inr data), s1)"
        "transmit_message R (new_frame True (fm_op_code fm) data False) s1 = (Returns (Inr u), s')"
      by (auto simp: handle_continue_def returned Let_def split: if_splits)
    have "\<exists>dec. fst s1 = (fst s)\<lparr>fragmented := None, rs_decoder := dec\<rparr>"
    proof (cases "fm_compressed fm")
      case True
      with r(1) have "run_decoder (decompress I (fragments fm @ payload fr))
          ((fst s)\<lparr>fragmented := None\<rparr>, snd s) = (Returns (Inr data), s1)" by simp
      from run_decoder_InrD(2) [OF this] show ?thesis by auto
    next
      case False
      with r(1) have "fst s1 = (fst s)\<lparr>fragmented := None, rs_decoder := rs_decoder (fst s)\<rparr>"
        by (auto simp: ok_def)
      then show ?thesis by blast
    qed
    with transmit_InrD [OF r(2)] show ?thesis by (auto simp: reader_inv_def)
  qed
qed

lemma handle_frame_inv:
  assumes "handle_frame R I fr s = (Returns (Inr again), s')" "accepted (rs_config (fst s)) fr"
    "reader_inv (fst s)"
  shows "reader_inv (fst s') \<and> same_setup (fst s) (fst s')"
proof (cases "opcode fr")
  case Continue
  with assms handle_continue_inv [of I fr s] show ?thesis
    by (auto simp: handle_frame_def await_Inr_iff ok_def)
next
  case Text
  with assms handle_data_inv [of fr s] show ?thesis
    by (auto simp: handle_frame_def await_Inr_iff ok_def)
next
  case Binary
  with assms handle_data_inv [of fr s] show ?thesis
    by (auto simp: handle_frame_def await_Inr_iff ok_def)
next
  case Pong
  with assms show ?thesis by (simp add: handle_frame_def ok_def)
qed (use assms in \<open>auto simp: handle_frame_def await_Inr_iff ok_def send_close_frame_def
       send_pong_frame_def dest!: reader_write_InrD\<close>)

lemma read_frame_delivered:
  "delivered (view (snd (snd (read_frame R I s)))) = delivered (view (snd s))"
proof -
  have "preserves (\<lambda>w. delivered (view w) = c) (read_exact R n)"
    and "preserves (\<lambda>w. delivered (view w) = c) (timeout_read_exact R d n)" for c n d
    using read_exact_frame timed_frame by (auto simp: preserves_def only_input_def)
  note pres = this
  have "preserves (\<lambda>s. delivered (view (snd s)) = c) (read_payload R n)" for n c
  proof -
    have "preserves (\<lambda>s. delivered (view (snd s)) = c)
        (case r of Inl e \<Rightarrow> err (IOError e) | Inr bs \<Rightarrow> ok bs)" for r :: "io_error + bytes"
      by (cases r) (simp_all add: preserved)
    then show ?thesis unfolding read_payload_def by (intro preserved) (simp_all add: pres)
  qed
  then have "preserves (\<lambda>s. delivered (view (snd s)) = c) (read_frame R I)" for c
    unfolding read_frame_def rd_def read_length_def read_mask_def Let_def
    by (intro preserved) (simp_all add: pres)
  then show ?thesis by (auto dest: preservesD)
qed

text \<open>One turn, however it ends, delivers at most one message, and a deliverable one.\<close>

lemma poll_once_delivers:
  assumes "reader_inv (fst s)"
  shows "delivers view (snd s) (snd (snd (poll_once R I s))) (deliverable (rs_config (fst s)))"
proof (cases "\<exists>fr s1. read_frame R I s = (Returns (Inr fr), s1)")
  case False
  then have "snd (poll_once R I s) = snd (read_frame R I s)"
    by (cases "read_frame R I s")
       (auto simp: poll_once_def await_def split: outcome.split sum.split)
  with read_frame_delivered [of I s] show ?thesis by (simp add: delivers_def)
next
  case True
  then obtain fr s1 where r: "read_frame R I s = (Returns (Inr fr), s1)" by blast
  note d = read_frame_InrD [OF r]
  then obtain dec where s1: "fst s1 = (fst s)\<lparr>rs_decoder := dec\<rparr>" by blast
  with assms have "reader_inv (fst s1)" "rs_config (fst s1) = rs_config (fst s)"
    by (simp_all add: reader_inv_def split: option.splits)
  then have "delivers view (snd s1) (snd (snd (handle_frame R I fr s1))) (deliverable (rs_config (fst s)))"
    using handle_frame_delivers [of "snd s1" I fr "fst s1"] completes_deliverable [of I "fst s1" fr] d(4)
    by (auto elim!: delivers_mono)
  moreover have "delivered (view (snd s1)) = delivered (view (snd s))"
    using read_frame_delivered [of I s] r by simp
  ultimately show ?thesis using r by (simp add: poll_once_def run delivers_def)
qed

lemma poll_once_inv:
  assumes "poll_once R I s = (Returns (Inr again), s')" "reader_inv (fst s)"
  shows "reader_inv (fst s') \<and> same_setup (fst s) (fst s')"
proof -
  from assms(1) obtain fr s1 where r: "read_frame R I s = (Returns (Inr fr), s1)"
      "handle_frame R I fr s1 = (Returns (Inr again), s')"
    by (auto simp: poll_once_def await_Inr_iff)
  note d = read_frame_InrD [OF r(1)]
  then obtain dec where s1: "fst s1 = (fst s)\<lparr>rs_decoder := dec\<rparr>" by blast
  with assms(2) have "reader_inv (fst s1)" "same_setup (fst s) (fst s1)"
    by (simp_all add: reader_inv_def split: option.splits)
  with handle_frame_inv [OF r(2)] d(4) show ?thesis by (auto simp: same_setup_def)
qed

text \<open>In all states reached.\<close>

lemma polls_inv:
  assumes "polls R I s s'" "reader_inv (fst s)"
  shows "reader_inv (fst s') \<and> same_setup (fst s) (fst s')
    \<and> (\<exists>ms. delivered (view (snd s')) = delivered (view (snd s)) @ map Inr ms
           \<and> (\<forall>m\<in>set ms. deliverable (rs_config (fst s)) m))"
  using assms
proof (induction rule: polls.induct)
  case (polls_start s)
  have "delivered (view (snd s)) = delivered (view (snd s)) @ map Inr []" by simp
  with polls_start show ?case by fastforce
next
  case (polls_turn s s1 s2)
  from poll_once_inv [OF polls_turn.hyps(1) polls_turn.prems]
  have i: "reader_inv (fst s1)" "same_setup (fst s) (fst s1)" by simp_all
  from polls_turn.IH [OF i(1)] i(2) obtain ms where ms:
    "reader_inv (fst s2)" "same_setup (fst s) (fst s2)"
    "delivered (view (snd s2)) = delivered (view (snd s1)) @ map Inr ms"
    "\<forall>m\<in>set ms. deliverable (rs_config (fst s)) m" by (auto simp: same_setup_def)
  from poll_once_delivers [OF polls_turn.prems, of I] polls_turn.hyps(1) obtain ms1 where
    "delivered (view (snd s1)) = delivered (view (snd s)) @ map Inr ms1"
    "\<forall>m\<in>set ms1. deliverable (rs_config (fst s)) m"
  proof (unfold delivers_def, elim disjE exE conjE)
    assume "delivered (view (snd (snd (poll_once R I s)))) = delivered (view (snd s))"
    with polls_turn.hyps(1) that [of "[]"] show ?thesis by simp
  next
    fix m
    assume "delivered (view (snd (snd (poll_once R I s)))) = delivered (view (snd s)) @ [Inr m]"
      "deliverable (rs_config (fst s)) m"
    with polls_turn.hyps(1) that [of "[m]"] show ?thesis by simp
  qed
  with ms(3,4) have "delivered (view (snd s2)) = delivered (view (snd s)) @ map Inr (ms1 @ ms)"
    "\<forall>m\<in>set (ms1 @ ms). deliverable (rs_config (fst s)) m" by auto
  with ms(1,2) show ?case by blast
qed

end

text \<open>The whole loop, from the start of a connection.\<close>

lemma loop_delivers:
  assumes "connection R view"
    and "poll_messages R I (new_read_stream wtr config dec, w) = Some (r, (self', w'))"
  shows "\<exists>ms. delivered (view w') = delivered (view w) @ map Inr ms
           \<and> (\<forall>m\<in>set ms. deliverable config m)"
proof -
  let ?s = "(new_read_stream wtr config dec, w)"
  from connection.poll_messages_ends [OF assms(1), of I ?s] obtain s1 where
    s1: "polls R I ?s s1" "fst (poll_once R I s1) \<noteq> Returns (Inr True)" by blast
  have w': "snd (snd (poll_once R I s1)) = w'"
    using assms(2) poll_messages_polls [OF s1(1)] poll_messages_last [OF s1(2)] by simp
  from connection.polls_inv [OF assms(1) s1(1)] obtain ms where
    i: "reader_inv (fst s1)" "rs_config (fst s1) = config" and
    ms: "delivered (view (snd s1)) = delivered (view w) @ map Inr ms"
      "\<forall>m\<in>set ms. deliverable config m"
    by (auto simp: same_setup_def new_read_stream_def reader_inv_def)
  from connection.poll_once_delivers [OF assms(1) i(1), of I] i(2) w'
  consider "delivered (view w') = delivered (view (snd s1))"
    | m where "delivered (view w') = delivered (view (snd s1)) @ [Inr m]" "deliverable config m"
    by (auto simp: delivers_def)
  then show ?thesis
  proof cases
    case 1
    with ms show ?thesis by auto
  next
    case (2 m)
    with ms have "delivered (view w') = delivered (view w) @ map Inr (ms @ [m])"
      "\<forall>x\<in>set (ms @ [m]). deliverable config x" by auto
    then show ?thesis by blast
  qed
qed

section \<open>Properties\<close>

text \<open>A server's reader with small bounds, for the concrete runs below.\<close>

definition small_config :: web_socket_config where
  "small_config = \<lparr>max_frame_size = Some 20, max_message_size = Some 30, ws_extensions = None\<rparr>"

definition small_reader :: "(nat \<times> phase) read_stream" where
  "small_reader = new_read_stream \<lparr>kind = Server\<rparr> small_config
     \<lparr>decompressor = (0, Header), d_reset_context = False\<rparr>"





end
