(* ===== verification/Framing.thy ===== *)
theory Framing
  imports Polling
begin

text \<open>
  Properties of single frames: writing and reading a frame are inverse, a forbidden header is
  refused with its error after two bytes, an oversized frame before its payload, and control
  frames are answered as the protocol asks.
\<close>

section \<open>Writing and reading\<close>

text \<open>
  \<^bold>\<open>C12.\<close> A frame put on the wire by the writer of one side, masked or not, is read back by
  the other side's reader exactly: the same FIN flag, opcode and payload (decompressed when
  the frame is final and carries RSV1), the following bytes untouched, for every frame the
  reader's configuration allows.
\<close>

theorem write_frame_read_frame:
  assumes "byte_sink R1 view1" "byte_source R2 view2"
    and "writable (view1 w1)" "write_frame R1 wtr fr rsv1 w1 = (r, w1')"
    and "punctual (view2 w2)"
      "incoming (view2 w2) = drop (length (outgoing (view1 w1))) (outgoing (view1 w1')) @ rest"
    and "frame_fits (rs_config self) (final_fragment fr) rsv1 (opcode fr) (length (payload fr))"
    and "inflated I (rsv1 \<and> final_fragment fr) (payload fr) (rs_decoder self) = (Returns (Inr q), dec)"
  shows "r = Returns (Inr ()) \<and>
     (\<exists>w2'. read_frame R2 I (self, w2)
          = (Returns (Inr (fr\<lparr>payload := q, compressed := rsv1\<rparr>)), (self\<lparr>rs_decoder := dec\<rparr>, w2'))
        \<and> view2 w2' = (view2 w2)\<lparr>incoming := rest\<rparr>)"
proof -
  note w = byte_sink.write_frame_wire [OF assms(1,3), of wtr fr rsv1, unfolded assms(4)]
  have "incoming (view2 w2) = wire_frame (frame_key R1 wtr w1) (final_fragment fr) rsv1 (opcode fr)
      (payload fr) @ rest" using assms(6) w(2) by simp
  from byte_source.read_frame_at [OF assms(2,5) this _ assms(7,8)] obtain w2' where
    "read_frame R2 I (self, w2) = (Returns (Inr \<lparr>final_fragment = final_fragment fr,
       opcode = opcode fr, payload = q, compressed = rsv1\<rparr>), (self\<lparr>rs_decoder := dec\<rparr>, w2'))"
    "view2 w2' = (view2 w2)\<lparr>incoming := rest\<rparr>" by auto
  with w(1) show ?thesis by (cases fr) auto
qed

theorem write_frame_read_frame_witness:
  "\<exists>w2'. read_frame sim_runtime stored_inflater
         (small_reader, sim_peer (sent (snd (write_frame sim_runtime \<lparr>kind = Client\<rparr>
            (new_frame True op_code.Text [72, 105] False) False (sim_peer []))) @ [7]))
      = (Returns (Inr (new_frame True op_code.Text [72, 105] False)), (small_reader, w2'))
    \<and> incoming (sim_view w2') = [7]"
proof -
  let ?fr = "new_frame True op_code.Text [72, 105] False"
  obtain r w1' where w: "write_frame sim_runtime \<lparr>kind = Client\<rparr> ?fr False (sim_peer []) = (r, w1')"
    by (meson surj_pair)
  have f: "frame_fits (rs_config small_reader) (final_fragment ?fr) False (opcode ?fr) (length (payload ?fr))"
    by (simp add: frame_fits_def small_reader_def new_read_stream_def small_config_def frame_limit_def)
  have d: "inflated stored_inflater (False \<and> final_fragment ?fr) (payload ?fr) (rs_decoder small_reader)
      = (Returns (Inr [72, 105]), rs_decoder small_reader)" by (simp add: inflated_def ok_def)
  from write_frame_read_frame [OF sim_sink.byte_sink_axioms sim_source.byte_source_axioms _ w _ _ f d,
      of "sim_peer (sent w1' @ [7])" "[7]"]
  obtain w2' where "read_frame sim_runtime stored_inflater (small_reader, sim_peer (sent w1' @ [7]))
      = (Returns (Inr (?fr\<lparr>payload := [72, 105], compressed := False\<rparr>)), (small_reader, w2'))"
    "incoming (sim_view w2') = [7]" by (auto simp: sim_view_def sim_peer_def comp_def list_all_iff)
  moreover have "?fr\<lparr>payload := [72, 105], compressed := False\<rparr> = ?fr" by (simp add: new_frame_def)
  ultimately show ?thesis unfolding w snd_conv by auto
qed

section \<open>Refusing a header\<close>

text \<open>
  The rules of RFC 6455 on the first two bytes of a frame, read as numbers: the opcode is the
  low half of the first byte, RSV2 and RSV3 are its bits 5 and 4, RSV1 its bit 6, FIN its
  bit 7; the length is the second byte without its top bit.
\<close>

definition header_verdict :: "web_socket_config \<Rightarrow> nat \<Rightarrow> nat \<Rightarrow> error option" where
  "header_verdict config b0 b1 =
     (if b0 mod 16 \<notin> {0, 1, 2, 8, 9, 10} then Some InvalidOpcode
      else if b0 div 16 mod 4 \<noteq> 0 \<or> b0 div 64 mod 2 = 1 \<and> \<not> deflate_enabled config
        then Some RSVNotZero
      else if 8 \<le> b0 mod 16 \<and> b0 div 128 = 0 then Some ControlFramesFragmented
      else if 8 \<le> b0 mod 16 \<and> 125 < b1 mod 128 then Some ControlFramePayloadSize
      else None)"

lemma mod_4: "x mod 4 = 0 \<longleftrightarrow> even x \<and> even (x div 2)" for x :: nat
  by presburger

lemma header_bits:
   "(b :: u8) AND 0x80 = 0 \<longleftrightarrow> unat b div 128 = 0"
   "b AND 0x40 = 0 \<longleftrightarrow> unat b div 64 mod 2 = 0"
   "b AND 0x20 = 0 \<and> b AND 0x10 = 0 \<longleftrightarrow> unat b div 16 mod 4 = 0"
   "unat (b AND 0x7F) = unat b mod 128"
   "b AND 0x0F = byte (unat b mod 16)"
proof -
  have "unat b div 128 < 2" using unat_u8_less [of b] by linarith
  then show "b AND 0x80 = 0 \<longleftrightarrow> unat b div 128 = 0"
    using and_power_eq_0 [of b 7] by (auto simp: even_iff_mod_2_eq_zero)
  show "b AND 0x40 = 0 \<longleftrightarrow> unat b div 64 mod 2 = 0"
    using and_power_eq_0 [of b 6] by (simp add: even_iff_mod_2_eq_zero)
  have "unat b div 32 = unat b div 16 div 2" by (simp flip: div_mult2_eq)
  then show "b AND 0x20 = 0 \<and> b AND 0x10 = 0 \<longleftrightarrow> unat b div 16 mod 4 = 0"
    using and_power_eq_0 [of b 5] and_power_eq_0 [of b 4] mod_4 [of "unat b div 16"] by auto
  show "unat (b AND 0x7F) = unat b mod 128"
    using and_mask_unat [of b 7] by (simp add: mask_eq_exp_minus_1)
  have "unat (b AND 0x0F) = unat b mod 16"
    using and_mask_unat [of b 4] by (simp add: mask_eq_exp_minus_1)
  then show "b AND 0x0F = byte (unat b mod 16)"
    using byte_unat [of "b AND 0x0F"] by simp
qed

lemma op_code_from_verdict:
  "n < 16 \<Longrightarrow>
     (case op_code_from (byte n) of
        Inl e \<Rightarrow> e = InvalidOpcode \<and> n \<notin> {0, 1, 2, 8, 9, 10}
      | Inr op \<Rightarrow> n \<in> {0, 1, 2, 8, 9, 10} \<and> (is_control op \<longleftrightarrow> 8 \<le> n))"
proof -
  have "\<forall>n \<in> set [0..<16]. case op_code_from (byte n) of
        Inl e \<Rightarrow> e = InvalidOpcode \<and> n \<notin> {0, 1, 2, 8, 9, 10}
      | Inr op \<Rightarrow> n \<in> {0, 1, 2, 8, 9, 10} \<and> (is_control op \<longleftrightarrow> 8 \<le> n)"
    by code_simp
  then show "n < 16 \<Longrightarrow> ?thesis" by simp
qed


lemma header_verdict_bits:
  "header_verdict config (unat b0) (unat b1) = Some e \<longleftrightarrow>
     (case op_code_from (b0 AND 0x0F) of
        Inl e' \<Rightarrow> e = e'
      | Inr op \<Rightarrow>
          if b0 AND 0x20 \<noteq> 0 \<or> b0 AND 0x10 \<noteq> 0 \<or> b0 AND 0x40 \<noteq> 0 \<and> \<not> deflate_enabled config
          then e = RSVNotZero
          else if b0 AND 0x80 = 0 \<and> is_control op then e = ControlFramesFragmented
          else e = ControlFramePayloadSize \<and> 125 < unat ((b1 :: u8) AND 0x7F) \<and> is_control op)"
proof -
  note o = header_bits(5) [of b0] and m = header_bits(4) [of b1]
    and b = header_bits(1) [of b0] header_bits(2) [of b0] header_bits(3) [of b0]
  have two: "unat b0 div 64 mod 2 = 1 \<longleftrightarrow> \<not> b0 AND 0x40 = 0"
    using b(2) by (simp add: mod2_eq_if)
  show ?thesis
  proof (cases "op_code_from (b0 AND 0x0F)")
    case (Inl e')
    with op_code_from_verdict [of "unat b0 mod 16"] show ?thesis
      by (auto simp: header_verdict_def o)
  next
    case (Inr op)
    with op_code_from_verdict [of "unat b0 mod 16"]
    have "unat b0 mod 16 \<in> {0, 1, 2, 8, 9, 10}" "is_control op \<longleftrightarrow> 8 \<le> unat b0 mod 16"
      by (simp_all add: o)
    with Inr show ?thesis
      unfolding header_verdict_def two b(1) m b(3) [symmetric] by auto
  qed
qed

text \<open>
  \<^bold>\<open>C20.\<close> A frame whose first two bytes break a rule is refused with the error of the first
  broken rule (reserved opcode, reserved bits, fragmented control frame, oversized control
  frame), after exactly these two bytes and with the reader's state unchanged; and every
  frame that is read has a header without a verdict.
\<close>

theorem read_frame_rejects_header:
  assumes "byte_source R view" "incoming (view w) = b0 # b1 # rest"
  shows "(\<forall>e. header_verdict (rs_config self) (unat b0) (unat b1) = Some e \<longrightarrow>
       (\<exists>w'. read_frame R I (self, w) = (Returns (Inl e), (self, w')) \<and> incoming (view w') = rest))
    \<and> (\<forall>fr. fst (read_frame R I (self, w)) = Returns (Inr fr) \<longrightarrow>
         header_verdict (rs_config self) (unat b0) (unat b1) = None)"
proof -
  let ?w = "snd (read_exact R 2 w)"
  have r: "rd R 2 (self, w) = (Returns (Inr [b0, b1]), (self, ?w))" and i: "incoming (view ?w) = rest"
    using byte_source.read_exact_ok [OF assms(1), of 2 w]
      byte_source.read_exact_rest [OF assms(1), of 2 w] assms(2)
    by (simp_all add: rd_def run)
  have "read_frame R I (self, w) = (Returns (Inl e), (self, ?w))"
    if "header_verdict (rs_config self) (unat b0) (unat b1) = Some e" for e
    using that unfolding header_verdict_bits
    by (cases "op_code_from (b0 AND 0x0F)") (auto simp: read_frame_def run r Let_def split: if_splits)
  note e = this
  show ?thesis
  proof (cases "header_verdict (rs_config self) (unat b0) (unat b1)")
    case (Some x)
    with e [OF this] i show ?thesis by auto
  qed simp
qed

theorem read_frame_rejects_header_witness:
  "\<exists>w'. read_frame sim_runtime stored_inflater (small_reader, sim_peer [0x83, 0, 7])
       = (Returns (Inl InvalidOpcode), (small_reader, w')) \<and> incoming (sim_view w') = [7]"
  using read_frame_rejects_header [OF sim_source.byte_source_axioms, of "sim_peer [0x83, 0, 7]" "0x83" 0 "[7]"
      small_reader stored_inflater]
  by (simp add: header_verdict_def)

context byte_source
begin

lemma read_frame_oversized:
  assumes "punctual (view w)"
    and "incoming (view w) = head_byte fin rsv1 op # length_field masked n @ rest"
    and "frame_limit (rs_config self) < n" "n < 2 ^ 64"
    and "is_control op \<longrightarrow> fin \<and> n \<le> 125" "rsv1 \<longrightarrow> deflate_enabled (rs_config self)"
  shows "\<exists>w'. read_frame R I (self, w) = (Returns (Inl MaxFrameSize), (self, w'))
           \<and> view w' = (view w)\<lparr>incoming := rest\<rparr>"
proof -
  let ?h = "head_byte fin rsv1 op"
  obtain b xs where lf: "length_field masked n = b # xs"
    using length_field_nonempty by (metis neq_Nil_conv)
  from rd_at [OF assms(1), of "[?h, b]" "xs @ rest" 2 self] assms(2) lf obtain w1 where
    r1: "rd R 2 (self, w) = (Returns (Inr [?h, b]), (self, w1))"
      "view w1 = (view w)\<lparr>incoming := xs @ rest\<rparr>" by auto
  from read_length_at [OF _ lf _ assms(4), of w1 rest self] r1 assms(1)
  obtain w2 where r2: "read_length R (unat (b AND 0x7F)) (self, w1) = (Returns (Inr n), (self, w2))"
      "view w2 = (view w)\<lparr>incoming := rest\<rparr>" by auto
  have "unat (b AND 0x7F) \<le> 125" if "is_control op"
    using length_field_bits(2) [OF lf] assms(5) that by simp
  then have "read_frame R I (self, w) = (Returns (Inl MaxFrameSize), (self, w2))"
    using assms(3,5,6) r1(1) r2(1)
    by (cases fin; cases rsv1; cases "is_control op";
        simp add: read_frame_def run Let_def head_byte_fields)
  with r2(2) show ?thesis by blast
qed

end

text \<open>
  \<^bold>\<open>C21.\<close> A frame whose declared length exceeds \<open>max_frame_size\<close> is refused with
  \<open>MaxFrameSize\<close> as soon as the length is known: nothing of the masking key or the payload
  has been read, so no buffer of the declared size is ever needed.
\<close>

theorem read_frame_rejects_oversized:
  assumes "byte_source R view" "punctual (view w)"
    and "incoming (view w) = head_byte fin rsv1 op # length_field masked n @ rest"
    and "frame_limit (rs_config self) < n" "n < 2 ^ 64"
    and "is_control op \<longrightarrow> fin \<and> n \<le> 125" "rsv1 \<longrightarrow> deflate_enabled (rs_config self)"
  shows "\<exists>w'. read_frame R I (self, w) = (Returns (Inl MaxFrameSize), (self, w'))
           \<and> view w' = (view w)\<lparr>incoming := rest\<rparr>"
  by (rule byte_source.read_frame_oversized [OF assms])

theorem read_frame_rejects_oversized_witness:
  "\<exists>w'. read_frame sim_runtime stored_inflater (small_reader, sim_peer [0x82, 126, 1, 0, 7])
       = (Returns (Inl MaxFrameSize), (small_reader, w')) \<and> incoming (sim_view w') = [7]"
proof -
  have "head_byte True False op_code.Binary # length_field False 256 @ [7] = [0x82, 126, 1, 0, 7]"
    by (simp add: head_byte_def as_u8_def byte_def length_field_def be_bytes_2 drop_bit_eq_div)
  then show ?thesis
    using read_frame_rejects_oversized [OF sim_source.byte_source_axioms, of "sim_peer [0x82, 126, 1, 0, 7]"
        True False op_code.Binary False 256 "[7]" small_reader stored_inflater]
    by (auto simp: small_reader_def new_read_stream_def small_config_def frame_limit_def)
qed

section \<open>Control frames\<close>

text \<open>
  \<^bold>\<open>C24.\<close> A ping is answered by a pong with the same payload and the loop goes on, a pong is
  absorbed, and a close frame is answered by an empty close frame and ends the loop; in no
  case is a message delivered or the state of a fragmented message changed.
\<close>

theorem control_frame_answered:
  assumes "connection R view" "punctual (view w)" "writable (view w)"
    and "key_ok key" "is_control op" "length p \<le> 125" "length p \<le> frame_limit (rs_config self)"
    and "incoming (view w) = wire_frame key True False op p @ rest"
  shows "\<exists>w' reply. poll_once R I (self, w) = (Returns (Inr (op \<noteq> op_code.Close)), (self, w'))
      \<and> view w' = (view w)\<lparr>incoming := rest, outgoing := outgoing (view w) @ reply\<rparr>
      \<and> (op = op_code.Ping \<longrightarrow> is_reply op_code.Pong p reply)
      \<and> (op = op_code.Close \<longrightarrow> is_reply op_code.Close [] reply)
      \<and> (op = op_code.Pong \<longrightarrow> reply = [])"
proof -
  note f = assms(6,7)
  have fits: "frame_fits (rs_config self) True False op (length p)"
    using f by (simp add: frame_fits_def)
  consider "op = op_code.Ping" | "op = op_code.Pong" | "op = op_code.Close"
    using assms(5) by (cases op) auto
  then show ?thesis
  proof cases
    case 1
    from connection.poll_ping [OF assms(1,2) assms(8) [unfolded 1] assms(4) fits [unfolded 1] assms(3), of I]
    obtain w' bs where "poll_once R I (self, w) = (Returns (Inr True), (self, w'))"
      "view w' = (view w)\<lparr>incoming := rest, outgoing := outgoing (view w) @ bs\<rparr>"
      "is_reply op_code.Pong p bs" by auto
    with 1 show ?thesis by (intro exI [of _ w'] exI [of _ bs]) simp
  next
    case 2
    from connection.poll_pong [OF assms(1,2) assms(8) [unfolded 2] assms(4) fits [unfolded 2], of I]
    obtain w' where "poll_once R I (self, w) = (Returns (Inr True), (self, w'))"
      "view w' = (view w)\<lparr>incoming := rest\<rparr>" by auto
    with 2 show ?thesis by (intro exI [of _ w'] exI [of _ "[]"]) simp
  next
    case 3
    from connection.poll_close [OF assms(1,2) assms(8) [unfolded 3] assms(4) fits [unfolded 3] assms(3), of I]
    obtain w' bs where "poll_once R I (self, w) = (Returns (Inr False), (self, w'))"
      "view w' = (view w)\<lparr>incoming := rest, outgoing := outgoing (view w) @ bs\<rparr>"
      "is_reply op_code.Close [] bs" by auto
    with 3 show ?thesis by (intro exI [of _ w'] exI [of _ bs]) simp
  qed
qed

theorem control_frame_answered_witness:
  "\<exists>w' reply. poll_once sim_runtime stored_inflater (small_reader, sim_peer [0x89, 2, 5, 6, 7])
       = (Returns (Inr True), (small_reader, w'))
     \<and> sent w' = reply \<and> is_reply op_code.Pong [5, 6] reply"
proof -
  have "incoming (sim_view (sim_peer [0x89, 2, 5, 6, 7])) = wire_frame None True False op_code.Ping [5, 6] @ [7]"
    by code_simp
  from control_frame_answered [OF sim.connection_axioms _ _ _ _ _ _ this, of small_reader stored_inflater]
  show ?thesis
    by (auto simp: small_reader_def new_read_stream_def small_config_def frame_limit_def sim_view_def
        sim_peer_def comp_def list_all_iff)
qed

section \<open>What a frame that was read satisfies\<close>

text \<open>
  \<^bold>\<open>C22.\<close> Every frame that \<open>read_frame\<close> returns is well-formed for the connection: control
  frames are final and short, RSV1 appears only when compression was agreed, and a payload that
  was not inflated is within \<open>max_frame_size\<close>. Reading a frame takes at least two bytes, writes
  and delivers nothing, and changes only the decompressor.
\<close>

theorem read_frame_accepted:
  assumes "byte_source R view" "read_frame R I (self, w) = (Returns (Inr fr), (self', w'))"
  shows "accepted (rs_config self) fr \<and> self' = self\<lparr>rs_decoder := rs_decoder self'\<rparr>
    \<and> only_input (view w) (view w') \<and> length (incoming (view w')) + 2 \<le> length (incoming (view w))"
  using byte_source.read_frame_InrD [OF assms] by (simp add: left_def same_output_def)

theorem read_frame_accepted_witness:
  "\<exists>w'. read_frame sim_runtime stored_inflater (small_reader, sim_peer [0x89, 2, 5, 6, 7])
       = (Returns (Inr \<lparr>final_fragment = True, opcode = op_code.Ping, payload = [5, 6], compressed = False\<rparr>),
          (small_reader, w'))
     \<and> accepted (rs_config small_reader)
         \<lparr>final_fragment = True, opcode = op_code.Ping, payload = [5, 6], compressed = False\<rparr>"
proof -
  let ?fr = "\<lparr>final_fragment = True, opcode = op_code.Ping, payload = [5, 6], compressed = False\<rparr>"
  have "fst (read_frame sim_runtime stored_inflater (small_reader, sim_peer [0x89, 2, 5, 6, 7]))
      = Returns (Inr ?fr)"
    "rs_decoder (fst (snd (read_frame sim_runtime stored_inflater
      (small_reader, sim_peer [0x89, 2, 5, 6, 7])))) = rs_decoder small_reader"
    by code_simp+
  then obtain self' w' where
    r: "read_frame sim_runtime stored_inflater (small_reader, sim_peer [0x89, 2, 5, 6, 7])
      = (Returns (Inr ?fr), (self', w'))" and "rs_decoder self' = rs_decoder small_reader"
    by (metis fst_conv prod.collapse snd_conv)
  with read_frame_accepted [OF sim_source.byte_source_axioms r] show ?thesis by auto
qed

end
