(* ===== verification/Assembly.thy ===== *)
theory Assembly
  imports Framing
begin

text \<open>
  Fragmented messages: the frame sequence of one message, the bytes that carry a frame
  sequence, and the reader's reassembly, also with pings and pongs between the fragments.
\<close>

section \<open>Frame sequences\<close>

text \<open>
  The frames of a message sent in the pieces \<open>p # ps\<close>: all but the last without FIN, all but
  the first with opcode Continue, RSV1 (the flag \<open>compressed\<close>) on the first only.
\<close>

fun continuation :: "bytes list \<Rightarrow> frame list" where
  "continuation [] = []"
| "continuation (p # ps) = new_frame (ps = []) op_code.Continue p False # continuation ps"

fun message_frames :: "bool \<Rightarrow> op_code \<Rightarrow> bytes list \<Rightarrow> frame list" where
  "message_frames z op [] = []"
| "message_frames z op (p # ps) = new_frame (ps = []) op p z # continuation ps"

lemma continuation_data: "fr \<in> set (continuation ps) \<Longrightarrow> opcode fr = op_code.Continue"
  by (induction ps) auto

lemma message_frames_data:
  "fr \<in> set (message_frames z op ps) \<Longrightarrow> opcode fr = op \<or> opcode fr = op_code.Continue"
  by (cases ps) (auto dest: continuation_data)

text \<open>\<open>carries fs bs\<close>: the bytes are these frames, each unmasked or masked with some key.\<close>

inductive carries :: "frame list \<Rightarrow> bytes \<Rightarrow> bool" where
  carries_Nil: "carries [] []"
| carries_Cons: "key_ok key \<Longrightarrow> carries fs bs \<Longrightarrow>
     carries (fr # fs)
       (wire_frame key (final_fragment fr) (compressed fr) (opcode fr) (payload fr) @ bs)"

inductive_cases carries_NilE: "carries [] bs"
inductive_cases carries_ConsE: "carries (fr # fs) bs"

inductive_simps carries_Nil_iff [simp]: "carries [] bs"

lemma carries_append: "carries fs bs \<Longrightarrow> carries gs cs \<Longrightarrow> carries (fs @ gs) (bs @ cs)"
  by (induction rule: carries.induct) (auto intro: carries_Cons)

lemma carries_appendD:
  "carries (fs @ gs) bs \<Longrightarrow> \<exists>bs1 bs2. bs = bs1 @ bs2 \<and> carries fs bs1 \<and> carries gs bs2"
proof (induction fs arbitrary: bs)
  case Nil
  then show ?case by simp
next
  case (Cons fr fs)
  then obtain key bs' where k: "key_ok key" "carries (fs @ gs) bs'"
    "bs = wire_frame key (final_fragment fr) (compressed fr) (opcode fr) (payload fr) @ bs'"
    by (auto elim: carries_ConsE)
  with Cons.IH obtain bs1 bs2 where "bs' = bs1 @ bs2" "carries fs bs1" "carries gs bs2" by blast
  with k show ?case by (metis append.assoc carries_Cons)
qed

lemma carries_one:
  "key_ok key \<Longrightarrow>
     carries [fr] (wire_frame key (final_fragment fr) (compressed fr) (opcode fr) (payload fr))"
  using carries_Cons [of key "[]" "[]" fr] by (simp add: carries_Nil)

section \<open>Pings and pongs in between\<close>

definition ping_pong :: "web_socket_config \<Rightarrow> frame \<Rightarrow> bool" where
  "ping_pong config fr \<longleftrightarrow>
     (opcode fr = op_code.Ping \<or> opcode fr = op_code.Pong)
     \<and> final_fragment fr \<and> \<not> compressed fr
     \<and> length (payload fr) \<le> 125 \<and> length (payload fr) \<le> frame_limit config"

definition pongs :: "frame list \<Rightarrow> frame list" where
  "pongs fs = map (\<lambda>fr. new_frame True op_code.Pong (payload fr) False)
                (filter (\<lambda>fr. opcode fr = op_code.Ping) fs)"

lemma pongs_simps [simp]:
  "pongs [] = []" "pongs (fs @ gs) = pongs fs @ pongs gs"
  "pongs (fr # fs) = (if opcode fr = op_code.Ping
     then new_frame True op_code.Pong (payload fr) False # pongs fs else pongs fs)"
  by (simp_all add: pongs_def)

text \<open>
  \<open>absorbs\<close>: the reader takes the bytes \<open>bs\<close> off the stream, going from one state to another,
  delivering \<open>ms\<close> and writing the replies.
\<close>

definition absorbs ::
  "'w runtime \<Rightarrow> ('w \<Rightarrow> link) \<Rightarrow> 'd inflater \<Rightarrow> 'd read_stream \<Rightarrow> bytes \<Rightarrow> 'd read_stream
     \<Rightarrow> message list \<Rightarrow> frame list \<Rightarrow> bool" where
  "absorbs R view I self bs self' ms replies \<longleftrightarrow>
     (\<forall>w rest. punctual (view w) \<and> writable (view w) \<and> listening (view w)
          \<and> incoming (view w) = bs @ rest \<longrightarrow>
        (\<exists>w' out. polls R I (self, w) (self', w') \<and> carries replies out
           \<and> view w' = (view w)\<lparr>incoming := rest, delivered := delivered (view w) @ map Inr ms,
                         outgoing := outgoing (view w) @ out\<rparr>))"

lemma absorbsE:
  assumes "absorbs R view I self bs self' ms replies"
    and "punctual (view w)" "writable (view w)" "listening (view w)" "incoming (view w) = bs @ rest"
  obtains w' out where "polls R I (self, w) (self', w')" "carries replies out"
    "view w' = (view w)\<lparr>incoming := rest, delivered := delivered (view w) @ map Inr ms,
                  outgoing := outgoing (view w) @ out\<rparr>"
  using assms unfolding absorbs_def by blast

lemma absorbs_Nil: "absorbs R view I self [] self [] []"
  unfolding absorbs_def by (auto intro!: exI polls_start carries_Nil)

lemma absorbs_trans:
  assumes "absorbs R view I self bs1 self1 ms1 fs1" "absorbs R view I self1 bs2 self2 ms2 fs2"
  shows "absorbs R view I self (bs1 @ bs2) self2 (ms1 @ ms2) (fs1 @ fs2)"
  unfolding absorbs_def
proof (intro allI impI)
  fix w rest
  assume a: "punctual (view w) \<and> writable (view w) \<and> listening (view w)
      \<and> incoming (view w) = (bs1 @ bs2) @ rest"
  then obtain w1 out1 where 1: "polls R I (self, w) (self1, w1)" "carries fs1 out1"
    "view w1 = (view w)\<lparr>incoming := bs2 @ rest, delivered := delivered (view w) @ map Inr ms1,
                  outgoing := outgoing (view w) @ out1\<rparr>"
    by (auto elim: absorbsE [OF assms(1), of w "bs2 @ rest"])
  from a 1(3) have "punctual (view w1)" "writable (view w1)" "listening (view w1)"
    "incoming (view w1) = bs2 @ rest" by simp_all
  from absorbsE [OF assms(2) this] obtain w2 out2 where 2: "polls R I (self1, w1) (self2, w2)" "carries fs2 out2"
    "view w2 = (view w1)\<lparr>incoming := rest, delivered := delivered (view w1) @ map Inr ms2,
                  outgoing := outgoing (view w1) @ out2\<rparr>" .
  from polls_trans [OF 1(1) 2(1)] carries_append [OF 1(2) 2(2)] 1(3) 2(3)
  show "\<exists>w' out. polls R I (self, w) (self2, w') \<and> carries (fs1 @ fs2) out
      \<and> view w' = (view w)\<lparr>incoming := rest, delivered := delivered (view w) @ map Inr (ms1 @ ms2),
            outgoing := outgoing (view w) @ out\<rparr>"
    by (intro exI [of _ w2] exI [of _ "out1 @ out2"]) simp
qed

context connection
begin

lemma absorbs_ping_pong:
  assumes "ping_pong (rs_config self) fr" "key_ok key"
  shows "absorbs R view I self
           (wire_frame key (final_fragment fr) (compressed fr) (opcode fr) (payload fr))
           self [] (pongs [fr])"
  unfolding absorbs_def
proof (intro allI impI)
  fix w rest
  assume a: "punctual (view w) \<and> writable (view w) \<and> listening (view w)
      \<and> incoming (view w)
        = wire_frame key (final_fragment fr) (compressed fr) (opcode fr) (payload fr) @ rest"
  from assms(1) have f: "frame_fits (rs_config self) True False (opcode fr) (length (payload fr))"
    by (auto simp: ping_pong_def frame_fits_def)
  show "\<exists>w' out. polls R I (self, w) (self, w') \<and> carries (pongs [fr]) out
      \<and> view w' = (view w)\<lparr>incoming := rest, delivered := delivered (view w) @ map Inr [],
            outgoing := outgoing (view w) @ out\<rparr>"
  proof (cases "opcode fr = op_code.Ping")
    case True
    with a assms f poll_ping [of w key "payload fr" rest self I] obtain w' bs where
      "poll_once R I (self, w) = (Returns (Inr True), (self, w'))"
      "view w' = (view w)\<lparr>incoming := rest, outgoing := outgoing (view w) @ bs\<rparr>"
      "is_reply op_code.Pong (payload fr) bs" by (auto simp: ping_pong_def)
    with True show ?thesis
      by (intro exI [of _ w'] exI [of _ bs])
         (auto simp: is_reply_def intro: polls_once carries_one [where fr = "new_frame True op_code.Pong _ False", simplified])
  next
    case False
    with a assms f poll_pong [of w key "payload fr" rest self I] obtain w' where
      "poll_once R I (self, w) = (Returns (Inr True), (self, w'))"
      "view w' = (view w)\<lparr>incoming := rest\<rparr>" by (auto simp: ping_pong_def)
    with False show ?thesis
      by (intro exI [of _ w'] exI [of _ "[]"]) (auto intro: polls_once carries_Nil)
  qed
qed

lemma absorbs_ping_pongs:
  "carries fs bs \<Longrightarrow> \<forall>fr\<in>set fs. ping_pong (rs_config self) fr
     \<Longrightarrow> absorbs R view I self bs self [] (pongs fs)"
proof (induction rule: carries.induct)
  case carries_Nil
  then show ?case by (simp add: absorbs_Nil)
next
  case (carries_Cons key fs bs fr)
  from absorbs_trans [OF absorbs_ping_pong carries_Cons.IH, of fr key]
  show ?case using carries_Cons.prems carries_Cons.hyps(1) by (auto split: if_splits)
qed

text \<open>The four kinds of data frames.\<close>

lemma absorbs_first_fragment:
  assumes "key_ok key" "frame_fits (rs_config self) False z op (length p)"
    and "op = op_code.Text \<or> op = op_code.Binary" "fragmented self = None"
  shows "absorbs R view I self (wire_frame key False z op p)
    (self\<lparr>fragmented := Some \<lparr>fragments = p, fm_op_code = op, fm_compressed = z\<rparr>\<rparr>) [] []"
  unfolding absorbs_def
proof (intro allI impI)
  fix w rest
  assume "punctual (view w) \<and> writable (view w) \<and> listening (view w)
      \<and> incoming (view w) = wire_frame key False z op p @ rest"
  then obtain w' where "poll_once R I (self, w) = (Returns (Inr True),
      (self\<lparr>fragmented := Some \<lparr>fragments = p, fm_op_code = op, fm_compressed = z\<rparr>\<rparr>, w'))"
    "view w' = (view w)\<lparr>incoming := rest\<rparr>"
    using poll_first_fragment [OF _ _ assms, of w rest I] by auto
  then show "\<exists>w' out. polls R I (self, w) (self\<lparr>fragmented := Some
        \<lparr>fragments = p, fm_op_code = op, fm_compressed = z\<rparr>\<rparr>, w') \<and> carries [] out
      \<and> view w' = (view w)\<lparr>incoming := rest, delivered := delivered (view w) @ map Inr [],
            outgoing := outgoing (view w) @ out\<rparr>"
    by (intro exI [of _ w'] exI [of _ "[]"]) (auto intro: polls_once)
qed

lemma absorbs_next_fragment:
  assumes "key_ok key" "frame_fits (rs_config self) False False op_code.Continue (length p)"
    and "fragmented self = Some fm"
    and "length (fragments fm) + length p \<le> message_limit (rs_config self)"
  shows "absorbs R view I self (wire_frame key False False op_code.Continue p)
    (self\<lparr>fragmented := Some (fm\<lparr>fragments := fragments fm @ p\<rparr>)\<rparr>) [] []"
  unfolding absorbs_def
proof (intro allI impI)
  fix w rest
  assume "punctual (view w) \<and> writable (view w) \<and> listening (view w)
      \<and> incoming (view w) = wire_frame key False False op_code.Continue p @ rest"
  then obtain w' where "poll_once R I (self, w) = (Returns (Inr True),
      (self\<lparr>fragmented := Some (fm\<lparr>fragments := fragments fm @ p\<rparr>)\<rparr>, w'))"
    "view w' = (view w)\<lparr>incoming := rest\<rparr>"
    using poll_next_fragment [OF _ _ assms, of w rest I] by auto
  then show "\<exists>w' out. polls R I (self, w)
        (self\<lparr>fragmented := Some (fm\<lparr>fragments := fragments fm @ p\<rparr>)\<rparr>, w') \<and> carries [] out
      \<and> view w' = (view w)\<lparr>incoming := rest, delivered := delivered (view w) @ map Inr [],
            outgoing := outgoing (view w) @ out\<rparr>"
    by (intro exI [of _ w'] exI [of _ "[]"]) (auto intro: polls_once)
qed

lemma absorbs_last_fragment:
  assumes "key_ok key" "frame_fits (rs_config self) True False op_code.Continue (length p)"
    and "fragmented self = Some fm"
    and "length (fragments fm) + length p \<le> message_limit (rs_config self)"
    and "inflated I (fm_compressed fm) (fragments fm @ p) (rs_decoder self) = (Returns (Inr q), dec)"
    and "from_frame (new_frame True (fm_op_code fm) q False) = Inr m"
  shows "absorbs R view I self (wire_frame key True False op_code.Continue p)
    (self\<lparr>fragmented := None, rs_decoder := dec\<rparr>) [m] []"
  unfolding absorbs_def
proof (intro allI impI)
  fix w rest
  assume "punctual (view w) \<and> writable (view w) \<and> listening (view w)
      \<and> incoming (view w) = wire_frame key True False op_code.Continue p @ rest"
  then obtain w' where "poll_once R I (self, w)
      = (Returns (Inr True), (self\<lparr>fragmented := None, rs_decoder := dec\<rparr>, w'))"
    "view w' = (view w)\<lparr>incoming := rest, delivered := delivered (view w) @ [Inr m]\<rparr>"
    using poll_last_fragment [OF _ _ assms(1-5) _ assms(6), of w rest] by auto
  then show "\<exists>w' out. polls R I (self, w) (self\<lparr>fragmented := None, rs_decoder := dec\<rparr>, w')
      \<and> carries [] out
      \<and> view w' = (view w)\<lparr>incoming := rest, delivered := delivered (view w) @ map Inr [m],
            outgoing := outgoing (view w) @ out\<rparr>"
    by (intro exI [of _ w'] exI [of _ "[]"]) (auto intro: polls_once)
qed

lemma absorbs_whole_message:
  assumes "key_ok key" "frame_fits (rs_config self) True z op (length p)"
    and "inflated I z p (rs_decoder self) = (Returns (Inr q), dec)"
    and "op = op_code.Text \<or> op = op_code.Binary" "fragmented self = None"
    and "from_frame (new_frame True op q z) = Inr m"
  shows "absorbs R view I self (wire_frame key True z op p) (self\<lparr>rs_decoder := dec\<rparr>) [m] []"
  unfolding absorbs_def
proof (intro allI impI)
  fix w rest
  assume "punctual (view w) \<and> writable (view w) \<and> listening (view w)
      \<and> incoming (view w) = wire_frame key True z op p @ rest"
  then obtain w' where "poll_once R I (self, w)
      = (Returns (Inr True), (self\<lparr>rs_decoder := dec\<rparr>, w'))"
    "view w' = (view w)\<lparr>incoming := rest, delivered := delivered (view w) @ [Inr m]\<rparr>"
    using poll_whole_message [OF _ _ assms(1-5) _ assms(6), of w rest] by auto
  then show "\<exists>w' out. polls R I (self, w) (self\<lparr>rs_decoder := dec\<rparr>, w') \<and> carries [] out
      \<and> view w' = (view w)\<lparr>incoming := rest, delivered := delivered (view w) @ map Inr [m],
            outgoing := outgoing (view w) @ out\<rparr>"
    by (intro exI [of _ w'] exI [of _ "[]"]) (auto intro: polls_once)
qed

end

section \<open>A message among control frames\<close>

definition data_frames :: "frame list \<Rightarrow> frame list" where
  "data_frames fs = filter (\<lambda>fr. \<not> is_control (opcode fr)) fs"

definition mixed :: "web_socket_config \<Rightarrow> frame list \<Rightarrow> frame list \<Rightarrow> bool" where
  "mixed config fs ds \<longleftrightarrow>
     data_frames fs = ds \<and> (\<forall>fr\<in>set fs. is_control (opcode fr) \<longrightarrow> ping_pong config fr)"

lemma ping_pong_control: "ping_pong config fr \<Longrightarrow> is_control (opcode fr)"
  by (auto simp: ping_pong_def)

lemma mixed_Nil: "mixed config fs [] \<longleftrightarrow> (\<forall>fr\<in>set fs. ping_pong config fr)"
  by (auto simp: mixed_def data_frames_def filter_empty_conv ping_pong_control)

lemma mixed_ConsD:
  assumes "mixed config fs (d # ds)"
  shows "\<exists>cs gs. fs = cs @ d # gs \<and> mixed config cs [] \<and> mixed config gs ds \<and> \<not> is_control (opcode d)"
proof -
  from assms obtain cs gs where "fs = cs @ d # gs" "\<forall>c\<in>set cs. is_control (opcode c)"
      "\<not> is_control (opcode d)" "filter (\<lambda>fr. \<not> is_control (opcode fr)) gs = ds"
    unfolding mixed_def data_frames_def by (auto simp: filter_eq_Cons_iff)
  with assms show ?thesis
    by (intro exI [of _ cs] exI [of _ gs]) (auto simp: mixed_Nil, auto simp: mixed_def data_frames_def)
qed

lemma mixed_refl: "\<forall>fr\<in>set ds. \<not> is_control (opcode fr) \<Longrightarrow> mixed config ds ds"
  by (auto simp: mixed_def data_frames_def filter_id_conv)

lemma pongs_data: "\<not> is_control (opcode d) \<Longrightarrow> pongs (cs @ d # gs) = pongs cs @ pongs gs"
  by (auto simp: is_control_def)

lemma from_frame_flags: "from_frame (new_frame fin op q z) = from_frame (new_frame True op q False)"
  by (cases op) (simp_all add: from_frame_def)

context connection
begin

lemma absorbs_mixed_Cons:
  assumes "mixed (rs_config self) cs []" "carries (cs @ d # gs) bs" "\<not> is_control (opcode d)"
    and "\<And>key. key_ok key \<Longrightarrow> absorbs R view I self
           (wire_frame key (final_fragment d) (compressed d) (opcode d) (payload d)) self1 ms1 []"
    and "\<And>bs2. carries gs bs2 \<Longrightarrow> absorbs R view I self1 bs2 self2 ms2 (pongs gs)"
  shows "absorbs R view I self bs self2 (ms1 @ ms2) (pongs (cs @ d # gs))"
proof -
  from carries_appendD [OF assms(2)] obtain bs0 bs1 where
    c: "bs = bs0 @ bs1" "carries cs bs0" "carries (d # gs) bs1" by blast
  from c(3) obtain key bs2 where
    d: "key_ok key" "carries gs bs2"
      "bs1 = wire_frame key (final_fragment d) (compressed d) (opcode d) (payload d) @ bs2"
    by (rule carries_ConsE)
  have "absorbs R view I self bs0 self [] (pongs cs)"
    using absorbs_ping_pongs [OF c(2)] assms(1) by (simp add: mixed_Nil)
  from absorbs_trans [OF this absorbs_trans [OF assms(4) [OF d(1)] assms(5) [OF d(2)]]]
  show ?thesis using assms(3) by (simp add: c(1) d(3) pongs_data del: pongs_simps)
qed

lemma absorbs_continuation:
  assumes "ps \<noteq> []" "mixed (rs_config self) fs (continuation ps)" "carries fs bs"
    and "\<forall>p\<in>set ps. length p \<le> frame_limit (rs_config self) \<and> length p < 2 ^ 64"
    and "fragmented self = Some fm"
    and "length (fragments fm) + length (concat ps) \<le> message_limit (rs_config self)"
    and "inflated I (fm_compressed fm) (fragments fm @ concat ps) (rs_decoder self) = (Returns (Inr q), dec)"
    and "from_frame (new_frame True (fm_op_code fm) q False) = Inr m"
  shows "absorbs R view I self bs (self\<lparr>fragmented := None, rs_decoder := dec\<rparr>) [m] (pongs fs)"
  using assms
proof (induction ps arbitrary: fs bs self fm)
  case Nil
  then show ?case by simp
next
  case (Cons p ps)
  from mixed_ConsD [OF Cons.prems(2) [unfolded continuation.simps]] obtain cs gs where
    s: "fs = cs @ new_frame (ps = []) op_code.Continue p False # gs" "mixed (rs_config self) cs []"
      "mixed (rs_config self) gs (continuation ps)" by auto
  have fits: "frame_fits (rs_config self) fin False op_code.Continue (length p)" for fin
    using Cons.prems(4) by (simp add: frame_fits_def)
  show ?case
  proof (cases "ps = []")
    case True
    let ?self = "self\<lparr>fragmented := None, rs_decoder := dec\<rparr>"
    have "absorbs R view I self bs ?self ([m] @ []) (pongs (cs @ new_frame (ps = []) op_code.Continue p False # gs))"
    proof (rule absorbs_mixed_Cons [OF s(2) Cons.prems(3) [unfolded s(1)]])
      fix key :: "bytes option"
      assume "key_ok key"
      then show "absorbs R view I self (wire_frame key (final_fragment (new_frame (ps = []) op_code.Continue p False))
          (compressed (new_frame (ps = []) op_code.Continue p False))
          (opcode (new_frame (ps = []) op_code.Continue p False))
          (payload (new_frame (ps = []) op_code.Continue p False))) ?self [m] []"
        using absorbs_last_fragment [OF _ fits Cons.prems(5) _ _ Cons.prems(8), of key I dec]
          Cons.prems(6,7) True by simp
    next
      fix bs2
      assume "carries gs bs2"
      then show "absorbs R view I ?self bs2 ?self [] (pongs gs)"
        using s(3) True by (intro absorbs_ping_pongs) (simp_all add: mixed_Nil)
    qed simp
    then show ?thesis by (simp add: s(1) del: pongs_simps)
  next
    case False
    let ?fm = "fm\<lparr>fragments := fragments fm @ p\<rparr>"
    let ?self = "self\<lparr>fragmented := Some ?fm\<rparr>"
    have "absorbs R view I self bs (self\<lparr>fragmented := None, rs_decoder := dec\<rparr>) ([] @ [m])
        (pongs (cs @ new_frame (ps = []) op_code.Continue p False # gs))"
    proof (rule absorbs_mixed_Cons [OF s(2) Cons.prems(3) [unfolded s(1)]])
      fix key :: "bytes option"
      assume "key_ok key"
      then show "absorbs R view I self (wire_frame key (final_fragment (new_frame (ps = []) op_code.Continue p False))
          (compressed (new_frame (ps = []) op_code.Continue p False))
          (opcode (new_frame (ps = []) op_code.Continue p False))
          (payload (new_frame (ps = []) op_code.Continue p False))) ?self [] []"
        using absorbs_next_fragment [OF _ fits Cons.prems(5), of key I] Cons.prems(6) False by simp
    next
      fix bs2
      assume "carries gs bs2"
      with Cons.IH [of ?self gs bs2 ?fm] Cons.prems(4,6-8) False s(3)
      show "absorbs R view I ?self bs2 (self\<lparr>fragmented := None, rs_decoder := dec\<rparr>) [m] (pongs gs)"
        by simp
    qed simp
    then show ?thesis by (simp add: s(1) del: pongs_simps)
  qed
qed

lemma absorbs_message:
  assumes "ps \<noteq> []" "mixed (rs_config self) fs (message_frames z op ps)" "carries fs bs"
    and "\<forall>p\<in>set ps. length p \<le> frame_limit (rs_config self) \<and> length p < 2 ^ 64"
    and "op = op_code.Text \<or> op = op_code.Binary" "z \<longrightarrow> deflate_enabled (rs_config self)"
    and "fragmented self = None"
    and "tl ps \<noteq> [] \<longrightarrow> length (concat ps) \<le> message_limit (rs_config self)"
    and "inflated I z (concat ps) (rs_decoder self) = (Returns (Inr q), dec)"
    and "from_frame (new_frame True op q False) = Inr m"
  shows "absorbs R view I self bs (self\<lparr>rs_decoder := dec\<rparr>) [m] (pongs fs)"
proof -
  obtain p qs where ps: "ps = p # qs" using assms(1) by (cases ps) auto
  from mixed_ConsD [OF assms(2) [unfolded ps message_frames.simps]] obtain cs gs where
    s: "fs = cs @ new_frame (qs = []) op p z # gs" "mixed (rs_config self) cs []"
      "mixed (rs_config self) gs (continuation qs)" "\<not> is_control op" by auto
  have fits: "frame_fits (rs_config self) fin z op (length p)" for fin
    using assms(4,6) s(4) ps by (simp add: frame_fits_def)
  have m: "from_frame (new_frame True op q z) = Inr m"
    by (rule trans [OF from_frame_flags assms(10)])
  show ?thesis
  proof (cases "qs = []")
    case True
    let ?self = "self\<lparr>rs_decoder := dec\<rparr>"
    have "absorbs R view I self bs ?self ([m] @ []) (pongs (cs @ new_frame (qs = []) op p z # gs))"
    proof (rule absorbs_mixed_Cons [OF s(2) assms(3) [unfolded s(1)]])
      fix key :: "bytes option"
      assume "key_ok key"
      then show "absorbs R view I self (wire_frame key (final_fragment (new_frame (qs = []) op p z))
          (compressed (new_frame (qs = []) op p z)) (opcode (new_frame (qs = []) op p z))
          (payload (new_frame (qs = []) op p z))) ?self [m] []"
        using absorbs_whole_message [OF _ fits _ assms(5,7) m, of key I dec] assms(9) True ps by simp
    next
      fix bs2
      assume "carries gs bs2"
      then show "absorbs R view I ?self bs2 ?self [] (pongs gs)"
        using s(3) True by (intro absorbs_ping_pongs) (simp_all add: mixed_Nil)
    qed (simp add: s(4))
    then show ?thesis by (simp add: s(1) del: pongs_simps)
  next
    case False
    let ?self = "self\<lparr>fragmented := Some \<lparr>fragments = p, fm_op_code = op, fm_compressed = z\<rparr>\<rparr>"
    have "absorbs R view I self bs (?self\<lparr>fragmented := None, rs_decoder := dec\<rparr>) ([] @ [m])
        (pongs (cs @ new_frame (qs = []) op p z # gs))"
    proof (rule absorbs_mixed_Cons [OF s(2) assms(3) [unfolded s(1)]])
      fix key :: "bytes option"
      assume "key_ok key"
      then show "absorbs R view I self (wire_frame key (final_fragment (new_frame (qs = []) op p z))
          (compressed (new_frame (qs = []) op p z)) (opcode (new_frame (qs = []) op p z))
          (payload (new_frame (qs = []) op p z))) ?self [] []"
        using absorbs_first_fragment [OF _ fits assms(5,7), of key I] False by simp
    next
      fix bs2
      assume "carries gs bs2"
      then show "absorbs R view I ?self bs2 (?self\<lparr>fragmented := None, rs_decoder := dec\<rparr>) [m] (pongs gs)"
        using absorbs_continuation [OF False, of ?self gs bs2 _ I q dec m] assms(4,8-10) s(3) False ps
        by simp
    qed (simp add: s(4))
    moreover have "?self\<lparr>fragmented := None, rs_decoder := dec\<rparr> = self\<lparr>rs_decoder := dec\<rparr>"
      using assms(7) by (cases self) simp
    ultimately show ?thesis by (simp add: s(1) del: pongs_simps)
  qed
qed

end

text \<open>
  \<^bold>\<open>C10.\<close> A message sent in any number of pieces, each frame masked or not, compressed or not,
  with any pings and pongs between the pieces, is reassembled by the reader: exactly this
  message is delivered, every ping is answered in order by a pong with its payload, nothing
  else is written, and the reader is ready for the next message.
\<close>

theorem message_reassembled:
  assumes "connection R view"
    and "punctual (view w)" "writable (view w)" "listening (view w)" "incoming (view w) = bs @ rest"
    and "carries fs bs" "mixed (rs_config self) fs (message_frames z (message_opcode m) ps)" "ps \<noteq> []"
    and "\<forall>p\<in>set ps. length p \<le> frame_limit (rs_config self) \<and> length p < 2 ^ 64"
    and "tl ps \<noteq> [] \<longrightarrow> length (concat ps) \<le> message_limit (rs_config self)"
    and "z \<longrightarrow> deflate_enabled (rs_config self)" "fragmented self = None" "message_ok m"
    and "inflated I z (concat ps) (rs_decoder self) = (Returns (Inr (as_binary m)), dec)"
  shows "\<exists>w' out. polls R I (self, w) (self\<lparr>rs_decoder := dec\<rparr>, w') \<and> carries (pongs fs) out
      \<and> view w' = (view w)\<lparr>incoming := rest, delivered := delivered (view w) @ [Inr m],
            outgoing := outgoing (view w) @ out\<rparr>"
proof -
  have op: "message_opcode m = op_code.Text \<or> message_opcode m = op_code.Binary"
    by (cases m) (simp_all add: message_opcode_def)
  have "from_frame (new_frame True (message_opcode m) (as_binary m) False) = Inr m"
    by (rule from_frame_message [OF assms(13)]) simp_all
  from connection.absorbs_message [OF assms(1,8,7,6,9) op assms(11,12,10,14) this]
  show ?thesis using assms(2-5) by (elim absorbsE) auto
qed

theorem message_reassembled_witness:
  "\<exists>w' out. polls sim_runtime stored_inflater
       (small_reader, sim_peer [0x01, 1, 72, 0x89, 1, 9, 0x80, 1, 105, 0x88]) (small_reader, w')
     \<and> carries [new_frame True op_code.Pong [9] False] out
     \<and> mailbox w' = [Inr (message.Text [72, 105])] \<and> sent w' = out"
proof -
  let ?fs = "[new_frame False op_code.Text [72] False, new_frame True op_code.Ping [9] False,
    new_frame True op_code.Continue [105] False]"
  let ?bs = "wire_frame None False False op_code.Text [72] @ wire_frame None True False op_code.Ping [9]
    @ wire_frame None True False op_code.Continue [105] @ []"
  have c: "carries ?fs ?bs"
    using carries_Cons [OF key_ok_simps(1) carries_Cons [OF key_ok_simps(1) carries_Cons
        [OF key_ok_simps(1) carries_Nil]], of "?fs ! 0" "?fs ! 1" "?fs ! 2"] by simp
  have b: "?bs = [0x01, 1, 72, 0x89, 1, 9, 0x80, 1, 105]" by code_simp
  have m: "mixed (rs_config small_reader) ?fs (message_frames False (message_opcode (message.Text [72, 105]))
      [[72], [105]])"
    by (simp add: mixed_def data_frames_def message_opcode_def ping_pong_def small_reader_def
        new_read_stream_def small_config_def frame_limit_def)
  have d: "inflated stored_inflater False (concat [[72], [105]]) (rs_decoder small_reader)
      = (Returns (Inr (as_binary (message.Text [72, 105]))), rs_decoder small_reader)"
    by code_simp
  have i: "incoming (sim_view (sim_peer (?bs @ [0x88]))) = ?bs @ [0x88]" by simp
  from message_reassembled [OF sim.connection_axioms _ _ _ i c m _ _ _ _ _ _ d]
  show ?thesis unfolding b
    by (auto simp: small_reader_def new_read_stream_def small_config_def frame_limit_def
        message_limit_def message_ok_def valid_string_def is_scalar_def sim_view_def sim_peer_def
        comp_def list_all_iff)
qed

end
