(* ===== verification/Split.thy ===== *)
theory Split
  imports Assembly
begin

text \<open>
  \<open>src/split.rs\<close>: the \<open>WSWriter\<close> a user sends with. Its methods run on the pair of the
  writer's own fields and the world behind the shared socket writer; the compressor is a
  parameter. After the code: the frames a message becomes, and that writing them puts
  exactly these frames on the wire. The \<open>WSReader\<close> a user reads from is a handle on the
  receiving end of the connection's channel, whose items are in the world.
\<close>

section \<open>The state\<close>

datatype receiver_stream = ReceiverStream

record ws_reader =
  read_rx :: receiver_stream

definition new_ws_reader :: "receiver_stream \<Rightarrow> ws_reader" where
  "new_ws_reader rx = \<lparr>read_rx = rx\<rparr>"

record 'c ws_writer =
  sw_writer :: writer
  sw_config :: web_socket_config
  sw_encoder :: "'c encoder"

definition new_ws_writer :: "writer \<Rightarrow> web_socket_config \<Rightarrow> 'c encoder \<Rightarrow> 'c ws_writer" where
  "new_ws_writer wtr config enc = \<lparr>sw_writer = wtr, sw_config = config, sw_encoder = enc\<rparr>"

type_synonym ('c, 'w, 'a) sending = "('c ws_writer \<times> 'w, error, 'a) async"

definition PAYLOAD_SIZE_COMPRESSION_ENABLE :: nat where
  "PAYLOAD_SIZE_COMPRESSION_ENABLE = 1"

section \<open>Frames on the wire\<close>

text \<open>The loop of \<open>write_frames\<close>: the flag is \<open>set_rsv1_first_frame\<close>.\<close>

fun write_loop :: "'w runtime \<Rightarrow> frame list \<Rightarrow> bool \<Rightarrow> ('c, 'w, unit) sending" where
  "write_loop R [] set_rsv1 = ok ()"
| "write_loop R (fr # frs) set_rsv1 =
     await (await get_self (\<lambda>self. io (write_frame R (sw_writer self) fr set_rsv1))) (\<lambda>_.
       write_loop R frs False)"

definition write_frames :: "'w runtime \<Rightarrow> frame list \<Rightarrow> ('c, 'w, unit) sending" where
  "write_frames R frs = write_loop R frs (frs \<noteq> [] \<and> compressed (hd frs))"

section \<open>Compression and conversion\<close>

definition run_encoder :: "('c encoder, io_error, 'a) async \<Rightarrow> ('c, 'w, 'a) sending" where
  "run_encoder m = map_err IOError (\<lambda>(self, w).
     let (r, enc) = m (sw_encoder self) in (r, (self\<lparr>sw_encoder := enc\<rparr>, w)))"

text \<open>The flag returned and the data, which the code updates in place.\<close>

definition check_compression :: "'c deflater \<Rightarrow> bytes \<Rightarrow> ('c, 'w, bool \<times> bytes) sending" where
  "check_compression C data =
     await get_self (\<lambda>self.
     if deflate_enabled (sw_config self) \<and> PAYLOAD_SIZE_COMPRESSION_ENABLE < length data
     then await (run_encoder (compress C data)) (\<lambda>z. ok (True, z))
     else ok (False, data))"

definition chunk_frames :: "op_code \<Rightarrow> bool \<Rightarrow> bytes list \<Rightarrow> frame list" where
  "chunk_frames op z cs =
     foldl (\<lambda>frames chunk. frames @
              [\<lparr>final_fragment = False, opcode = (if frames = [] then op else op_code.Continue),
                payload = chunk, compressed = z\<rparr>]) [] cs"

text \<open>\<open>frames.last_mut()\<close>: the last frame, if there is one, becomes final.\<close>

definition finish_last :: "frame list \<Rightarrow> frame list" where
  "finish_last frs =
     (if frs = [] then [] else butlast frs @ [(last frs)\<lparr>final_fragment := True\<rparr>])"

text \<open>\<open>chunks(0)\<close> panics: an absent \<open>max_frame_size\<close> is 0 here.\<close>

definition convert_to_frames :: "'c deflater \<Rightarrow> message \<Rightarrow> ('c, 'w, frame list) sending" where
  "convert_to_frames C m =
     (let op = message_opcode m; data = as_binary m in
      if data = [] then
        ok [\<lparr>final_fragment = True, opcode = op, payload = data, compressed = False\<rparr>]
      else
        await get_self (\<lambda>self.
        let n = frame_limit (sw_config self) in
        await (check_compression C data) (\<lambda>(z, data).
        if n = 0 then panic else ok (finish_last (chunk_frames op z (chunks n data))))))"

section \<open>The operations\<close>

definition write_message :: "'w runtime \<Rightarrow> 'c deflater \<Rightarrow> message \<Rightarrow> ('c, 'w, unit) sending" where
  "write_message R C m =
     await get_self (\<lambda>self.
     await (ensure (\<not> message_limit (sw_config self) < length (as_binary m)) MaxMessageSize) (\<lambda>_.
     await (convert_to_frames C m) (write_frames R)))"

definition send_message :: "'w runtime \<Rightarrow> 'c deflater \<Rightarrow> message \<Rightarrow> ('c, 'w, unit) sending" where
  "send_message R C m = write_message R C m"

definition send :: "'w runtime \<Rightarrow> 'c deflater \<Rightarrow> bytes \<Rightarrow> ('c, 'w, unit) sending" where
  "send R C data =
     await (of_result (from_utf8 data)) (\<lambda>s. write_message R C (message.Text s))"

definition send_as_binary :: "'w runtime \<Rightarrow> 'c deflater \<Rightarrow> bytes \<Rightarrow> ('c, 'w, unit) sending" where
  "send_as_binary R C data = write_message R C (message.Binary data)"

definition send_as_text :: "'w runtime \<Rightarrow> 'c deflater \<Rightarrow> rstring \<Rightarrow> ('c, 'w, unit) sending" where
  "send_as_text R C data = write_message R C (message.Text data)"

definition send_ping :: "'w runtime \<Rightarrow> ('c, 'w, unit) sending" where
  "send_ping R = write_frames R [new_frame True op_code.Ping [] False]"

definition close_connection :: "'w runtime \<Rightarrow> ('c, 'w, unit) sending" where
  "close_connection R =
     await (write_frames R [new_frame True op_code.Close [] False]) (\<lambda>_. io (sleep R 500))"

fun send_fragments :: "'w runtime \<Rightarrow> bool \<Rightarrow> nat \<Rightarrow> nat \<Rightarrow> bytes list \<Rightarrow> ('c, 'w, unit) sending" where
  "send_fragments R z n i [] = ok ()"
| "send_fragments R z n i (chunk # cs) =
     await (write_frames R [new_frame (i = n - 1)
              (if i = 0 then op_code.Text else op_code.Continue) chunk z]) (\<lambda>_.
       send_fragments R z n (Suc i) cs)"

definition send_large_data_fragmented ::
  "'w runtime \<Rightarrow> 'c deflater \<Rightarrow> bytes \<Rightarrow> nat \<Rightarrow> ('c, 'w, unit) sending" where
  "send_large_data_fragmented R C data fragment_size =
     await get_self (\<lambda>self.
     let config = sw_config self in
     await (ensure (\<not> frame_limit config < fragment_size)
              (CustomFragmentSizeExceeded fragment_size (frame_limit config))) (\<lambda>_.
     await (ensure (\<not> message_limit config < length data) MaxMessageSize) (\<lambda>_.
     await (check_compression C data) (\<lambda>(z, data).
     if fragment_size = 0 then panic
     else let cs = chunks fragment_size data in send_fragments R z (length cs) 0 cs))))"

section \<open>The frames of a message\<close>

text \<open>RSV1 as it appears on the wire: the flag on the first frame, none on the others.\<close>

fun flagged :: "bool \<Rightarrow> frame list \<Rightarrow> frame list" where
  "flagged z [] = []"
| "flagged z (fr # frs) = fr\<lparr>compressed := z\<rparr> # flagged False frs"

lemma finish_last_simps [simp]:
  "finish_last [] = []" "finish_last [fr] = [fr\<lparr>final_fragment := True\<rparr>]"
  "finish_last (fr # fr' # frs) = fr # finish_last (fr' # frs)"
  by (simp_all add: finish_last_def)

lemma chunk_frames_Nil [simp]: "chunk_frames op z [] = []"
  by (simp add: chunk_frames_def)

lemma chunk_frames_foldl:
  "frames \<noteq> [] \<Longrightarrow>
   foldl (\<lambda>frames chunk. frames @
       [\<lparr>final_fragment = False, opcode = (if frames = [] then op else op_code.Continue),
         payload = chunk, compressed = z\<rparr>]) frames cs
   = frames @ map (\<lambda>c. new_frame False op_code.Continue c z) cs"
  by (induction cs arbitrary: frames) (simp_all add: new_frame_def)

lemma chunk_frames_Cons [simp]:
  "chunk_frames op z (c # cs) = new_frame False op c z # map (\<lambda>c. new_frame False op_code.Continue c z) cs"
  by (simp add: chunk_frames_def chunk_frames_foldl new_frame_def)

lemma flagged_finish_continuation:
  "flagged False (finish_last (map (\<lambda>c. new_frame False op_code.Continue c z) cs)) = continuation cs"
proof (induction cs rule: continuation.induct)
  case (2 p ps)
  then show ?case by (cases ps) (simp_all add: new_frame_def)
qed simp

lemma flagged_frames: "flagged z (finish_last (chunk_frames op z cs)) = message_frames z op cs"
proof (cases cs)
  case (Cons p ps)
  with flagged_finish_continuation [of z ps] show ?thesis
    by (cases ps) (simp_all add: new_frame_def)
qed simp

lemma compressed_first: "cs \<noteq> [] \<Longrightarrow> compressed (hd (finish_last (chunk_frames op z cs))) = z
    \<and> finish_last (chunk_frames op z cs) \<noteq> []"
  by (cases cs rule: remdups_adj.cases) simp_all

context byte_sink
begin

lemma write_loop_at:
  assumes "writable (view w)"
  shows "\<exists>w' out. write_loop R frs z (self, w) = (Returns (Inr ()), (self, w'))
      \<and> view w' = (view w)\<lparr>outgoing := outgoing (view w) @ out\<rparr> \<and> carries (flagged z frs) out"
  using assms
proof (induction frs arbitrary: z w)
  case Nil
  then show ?case by (auto simp: ok_def intro!: exI)
next
  case (Cons fr frs)
  note wf = write_frame_wire [OF Cons.prems, of "sw_writer self" fr z]
  let ?w = "snd (write_frame R (sw_writer self) fr z w)"
  from Cons.IH [of ?w False] wf(2) Cons.prems obtain w' out where
    i: "write_loop R frs False (self, ?w) = (Returns (Inr ()), (self, w'))"
      "view w' = (view ?w)\<lparr>outgoing := outgoing (view ?w) @ out\<rparr>" "carries (flagged False frs) out"
    by auto
  from carries_Cons [OF _ i(3), of "frame_key R (sw_writer self) w" "fr\<lparr>compressed := z\<rparr>"]
  have "carries (flagged z (fr # frs))
      (wire_frame (frame_key R (sw_writer self) w) (final_fragment fr) z (opcode fr) (payload fr) @ out)"
    by simp
  with i wf show ?case by (simp add: run) blast
qed

lemma write_frames_at:
  assumes "writable (view w)" "frs \<noteq> []"
  obtains w' out where "write_frames R frs (self, w) = (Returns (Inr ()), (self, w'))"
    "view w' = (view w)\<lparr>outgoing := outgoing (view w) @ out\<rparr>"
    "carries (flagged (compressed (hd frs)) frs) out"
  using write_loop_at [OF assms(1), of frs "compressed (hd frs)" self] assms(2)
  by (auto simp: write_frames_def)

end

end
