(* ===== verification/Session.thy ===== *)
theory Session
  imports Split
begin

text \<open>
  The two ends of a connection: what the \<open>WSWriter\<close> of one side sends, the reading loop of
  the other side delivers.
\<close>

section \<open>The pieces of a message\<close>

definition pieces :: "nat \<Rightarrow> bytes \<Rightarrow> bytes list" where
  "pieces n data = (if data = [] then [[]] else chunks n data)"

lemma pieces_nonempty: "0 < n \<Longrightarrow> pieces n data \<noteq> []"
  by (simp add: pieces_def chunks_eq_Nil_iff)

lemma concat_pieces: "0 < n \<Longrightarrow> concat (pieces n data) = data"
  by (simp add: pieces_def concat_chunks)

lemma pieces_length: "p \<in> set (pieces n data) \<Longrightarrow> length p \<le> n"
  by (auto simp: pieces_def dest: chunks_length split: if_splits)

text \<open>
  \<open>deflated\<close>: what \<open>check_compression\<close> does to a payload, whether it compresses, the data
  and the encoder afterwards.
\<close>

definition deflated ::
  "'c deflater \<Rightarrow> 'c ws_writer \<Rightarrow> bytes \<Rightarrow> bool \<Rightarrow> bytes \<Rightarrow> 'c encoder \<Rightarrow> bool" where
  "deflated C self data z data' enc \<longleftrightarrow>
     (if deflate_enabled (sw_config self) \<and> PAYLOAD_SIZE_COMPRESSION_ENABLE < length data
      then z \<and> compress C data (sw_encoder self) = (Returns (Inr data'), enc) \<and> data' \<noteq> []
      else \<not> z \<and> data' = data \<and> enc = sw_encoder self)"

lemma check_compression_deflated:
  "deflated C self data z data' enc \<Longrightarrow>
     check_compression C data (self, w)
   = (Returns (Inr (z, data')), (self\<lparr>sw_encoder := enc\<rparr>, w))"
  by (auto simp: deflated_def check_compression_def run run_encoder_def split: if_splits)

lemma deflated_unique: "deflated C self p z data enc \<Longrightarrow> deflated C self p z' data' enc' \<Longrightarrow>
    z' = z \<and> data' = data \<and> enc' = enc"
  by (auto simp: deflated_def split: if_splits)

lemma deflated_nonempty: "deflated C self data z data' enc \<Longrightarrow> data' = [] \<longleftrightarrow> data = []"
  by (auto simp: deflated_def PAYLOAD_SIZE_COMPRESSION_ENABLE_def split: if_splits)

lemma convert_to_frames_deflated:
  assumes "deflated C self (as_binary m) z data enc" "0 < frame_limit (sw_config self)"
  obtains frs where "convert_to_frames C m (self, w) = (Returns (Inr frs), (self\<lparr>sw_encoder := enc\<rparr>, w))"
    "frs \<noteq> []" "flagged (compressed (hd frs)) frs
       = message_frames z (message_opcode m) (pieces (frame_limit (sw_config self)) data)"
proof (cases "as_binary m = []")
  case True
  with assms have "z = False" "data = []" "enc = sw_encoder self"
    by (auto simp: deflated_def split: if_splits)
  with True that [of "[new_frame True (message_opcode m) [] False]"] show ?thesis
    by (simp add: convert_to_frames_def ok_def new_frame_def pieces_def)
next
  case False
  let ?cs = "chunks (frame_limit (sw_config self)) data"
  have d: "data \<noteq> []" using deflated_nonempty [OF assms(1)] False by simp
  with assms(2) have c: "?cs \<noteq> []" by (simp add: chunks_eq_Nil_iff)
  show ?thesis
  proof (rule that)
    show "convert_to_frames C m (self, w)
        = (Returns (Inr (finish_last (chunk_frames (message_opcode m) z ?cs))), (self\<lparr>sw_encoder := enc\<rparr>, w))"
      using False assms(2) by (simp add: convert_to_frames_def Let_def run check_compression_deflated [OF assms(1)])
  qed (use compressed_first [OF c] d in \<open>simp_all add: flagged_frames pieces_def\<close>)
qed

context byte_sink
begin

lemma write_message_at:
  assumes "writable (view w)" "length (as_binary m) \<le> message_limit (sw_config self)"
    and "0 < frame_limit (sw_config self)" "deflated C self (as_binary m) z data enc"
  obtains w' out where "write_message R C m (self, w) = (Returns (Inr ()), (self\<lparr>sw_encoder := enc\<rparr>, w'))"
    "view w' = (view w)\<lparr>outgoing := outgoing (view w) @ out\<rparr>"
    "carries (message_frames z (message_opcode m) (pieces (frame_limit (sw_config self)) data)) out"
proof -
  from convert_to_frames_deflated [OF assms(4,3)] obtain frs where
    c: "convert_to_frames C m (self, w) = (Returns (Inr frs), (self\<lparr>sw_encoder := enc\<rparr>, w))" "frs \<noteq> []"
      "flagged (compressed (hd frs)) frs
       = message_frames z (message_opcode m) (pieces (frame_limit (sw_config self)) data)" by metis
  from write_frames_at [OF assms(1) c(2), of "self\<lparr>sw_encoder := enc\<rparr>"] obtain w' out where
    w: "write_frames R frs (self\<lparr>sw_encoder := enc\<rparr>, w)
        = (Returns (Inr ()), (self\<lparr>sw_encoder := enc\<rparr>, w'))"
      "view w' = (view w)\<lparr>outgoing := outgoing (view w) @ out\<rparr>"
      "carries (flagged (compressed (hd frs)) frs) out" by blast
  show ?thesis
  proof (rule that)
    show "write_message R C m (self, w) = (Returns (Inr ()), (self\<lparr>sw_encoder := enc\<rparr>, w'))"
      using assms(2) c(1) w(1) by (simp add: write_message_def run)
  qed (use w c(3) in simp_all)
qed

end

section \<open>Writer and reader in step\<close>

definition paired ::
  "('c encoder \<Rightarrow> 'd decoder \<Rightarrow> bool) \<Rightarrow> 'c ws_writer \<Rightarrow> 'd read_stream \<Rightarrow> bool" where
  "paired synced sdr rdr \<longleftrightarrow>
     synced (sw_encoder sdr) (rs_decoder rdr) \<and> fragmented rdr = None
     \<and> (deflate_enabled (sw_config sdr) \<longrightarrow> deflate_enabled (rs_config rdr))
     \<and> 0 < frame_limit (sw_config sdr) \<and> frame_limit (sw_config sdr) \<le> frame_limit (rs_config rdr)
     \<and> frame_limit (sw_config sdr) < 2 ^ 64
     \<and> message_limit (sw_config sdr) \<le> message_limit (rs_config rdr)"

text \<open>
  A message the writer may send; and compression does not blow up an allowed message beyond
  what the reader accepts.
\<close>

definition sendable :: "web_socket_config \<Rightarrow> message \<Rightarrow> bool" where
  "sendable config m \<longleftrightarrow> message_ok m \<and> length (as_binary m) \<le> message_limit config"

definition compression_fits ::
  "'c deflater \<Rightarrow> ('c encoder \<Rightarrow> 'd decoder \<Rightarrow> bool) \<Rightarrow> 'c ws_writer \<Rightarrow> 'd read_stream \<Rightarrow> bool" where
  "compression_fits C synced sdr rdr \<longleftrightarrow>
     (deflate_enabled (sw_config sdr) \<longrightarrow>
       (\<forall>p e d z e'. synced e d \<and> p \<noteq> [] \<and> length p \<le> message_limit (sw_config sdr)
          \<and> compress C p e = (Returns (Inr z), e') \<longrightarrow> length z \<le> message_limit (rs_config rdr)))"

fun send_all :: "'w runtime \<Rightarrow> 'c deflater \<Rightarrow> message list \<Rightarrow> ('c, 'w, unit) sending" where
  "send_all R C [] = ok ()"
| "send_all R C (m # ms) = await (send_message R C m) (\<lambda>_. send_all R C ms)"


context message_codec
begin

lemma deflated_inflated:
  assumes "synced (sw_encoder sdr) d"
  shows "\<exists>z data enc dec. deflated C sdr p z data enc \<and> inflated I z data d = (Returns (Inr p), dec)
      \<and> synced enc dec"
proof (cases "deflate_enabled (sw_config sdr) \<and> PAYLOAD_SIZE_COMPRESSION_ENABLE < length p")
  case True
  then have "p \<noteq> []" by auto
  from compress_decompress [OF assms this] True show ?thesis
    by (auto simp: deflated_def inflated_def)
next
  case False
  with assms show ?thesis
    by (intro exI [of _ False] exI [of _ p] exI [of _ "sw_encoder sdr"] exI [of _ d])
       (auto simp: deflated_def inflated_def ok_def)
qed

end

text \<open>
  The frames of one message, alone or among pings and pongs, are absorbed as this message.
\<close>

lemma frames_absorbed:
  assumes "connection R2 view2" "message_codec C I synced" "paired synced sdr rdr"
    and "compression_fits C synced sdr rdr" "sendable (sw_config sdr) m"
    and "deflated C sdr (as_binary m) z data enc" "carries fs out"
    and "mixed (rs_config rdr) fs (message_frames z (message_opcode m) (pieces (frame_limit (sw_config sdr)) data))"
  obtains rdr' where "absorbs R2 view2 I rdr out rdr' [m] (pongs fs)"
    "paired synced (sdr\<lparr>sw_encoder := enc\<rparr>) rdr'" "rs_config rdr' = rs_config rdr"
proof -
  let ?n = "frame_limit (sw_config sdr)"
  from assms(3) have sy: "synced (sw_encoder sdr) (rs_decoder rdr)" and p:
    "fragmented rdr = None" "deflate_enabled (sw_config sdr) \<longrightarrow> deflate_enabled (rs_config rdr)"
    "0 < ?n" "?n \<le> frame_limit (rs_config rdr)" "?n < 2 ^ 64"
    "message_limit (sw_config sdr) \<le> message_limit (rs_config rdr)" by (auto simp: paired_def)
  from assms(5) have m: "message_ok m" "length (as_binary m) \<le> message_limit (sw_config sdr)"
    by (simp_all add: sendable_def)
  note d = assms(6)
  from message_codec.deflated_inflated [OF assms(2) sy, of "as_binary m"] obtain dec where
    i: "inflated I z data (rs_decoder rdr) = (Returns (Inr (as_binary m)), dec)" "synced enc dec"
    using deflated_unique [OF d] by blast
  have op: "message_opcode m = op_code.Text \<or> message_opcode m = op_code.Binary"
    by (cases m) (simp_all add: message_opcode_def)
  have zd: "z \<longrightarrow> deflate_enabled (rs_config rdr)"
    using d p(2) by (auto simp: deflated_def split: if_splits)
  have ml: "length data \<le> message_limit (rs_config rdr)"
  proof (cases z)
    case True
    with d have "compress C (as_binary m) (sw_encoder sdr) = (Returns (Inr data), enc)"
        "deflate_enabled (sw_config sdr)" "as_binary m \<noteq> []"
      by (auto simp: deflated_def split: if_splits)
    with assms(4) sy m(2) show ?thesis unfolding compression_fits_def by blast
  next
    case False
    with d m(2) p(6) show ?thesis by (auto simp: deflated_def split: if_splits)
  qed
  have fits: "\<forall>p\<in>set (pieces ?n data). length p \<le> frame_limit (rs_config rdr) \<and> length p < 2 ^ 64"
    using p(4,5) by (fastforce dest: pieces_length)
  have "absorbs R2 view2 I rdr out (rdr\<lparr>rs_decoder := dec\<rparr>) [m] (pongs fs)"
    using connection.absorbs_message [OF assms(1) pieces_nonempty [OF p(3)] assms(8,7) fits op zd p(1),
        where I = I and q = "as_binary m" and m = m and dec = dec]
      i(1) ml from_frame_message [OF m(1), of "new_frame True (message_opcode m) (as_binary m) False"]
    by (simp add: concat_pieces [OF p(3)])
  with i(2) assms(3) that show ?thesis by (simp add: paired_def)
qed

lemma mixed_message_frames: "mixed config (message_frames z (message_opcode m) ps) (message_frames z (message_opcode m) ps)"
  by (rule mixed_refl) (cases m; auto simp: message_opcode_def dest!: message_frames_data)

lemma pongs_message_frames: "pongs (message_frames z (message_opcode m) ps) = []"
  by (cases m) (auto simp: pongs_def filter_empty_conv message_opcode_def dest!: message_frames_data)

text \<open>One message: what the writer appends to its output, the reader absorbs as this message.\<close>

lemma message_step:
  assumes "byte_sink R1 view1" "connection R2 view2" "message_codec C I synced"
    and "paired synced sdr rdr" "compression_fits C synced sdr rdr" "sendable (sw_config sdr) m"
    and "writable (view1 w1)"
  obtains w1' out sdr' rdr' where "send_message R1 C m (sdr, w1) = (Returns (Inr ()), (sdr', w1'))"
    "view1 w1' = (view1 w1)\<lparr>outgoing := outgoing (view1 w1) @ out\<rparr>"
    "absorbs R2 view2 I rdr out rdr' [m] []" "paired synced sdr' rdr'"
    "sw_config sdr' = sw_config sdr" "rs_config rdr' = rs_config rdr"
proof -
  let ?n = "frame_limit (sw_config sdr)"
  from assms(4) have sy: "synced (sw_encoder sdr) (rs_decoder rdr)" and n: "0 < ?n"
    by (auto simp: paired_def)
  from assms(6) have m: "length (as_binary m) \<le> message_limit (sw_config sdr)"
    by (simp add: sendable_def)
  from message_codec.deflated_inflated [OF assms(3) sy, of "as_binary m"] obtain z data enc where
    d: "deflated C sdr (as_binary m) z data enc" by blast
  from byte_sink.write_message_at [OF assms(1,7) m n d] obtain w1' out where
    w: "write_message R1 C m (sdr, w1) = (Returns (Inr ()), (sdr\<lparr>sw_encoder := enc\<rparr>, w1'))"
      "view1 w1' = (view1 w1)\<lparr>outgoing := outgoing (view1 w1) @ out\<rparr>"
      "carries (message_frames z (message_opcode m) (pieces ?n data)) out" .
  from frames_absorbed [OF assms(2-6) d w(3) mixed_message_frames] obtain rdr' where
    "absorbs R2 view2 I rdr out rdr' [m] []" "paired synced (sdr\<lparr>sw_encoder := enc\<rparr>) rdr'"
    "rs_config rdr' = rs_config rdr" by (auto simp: pongs_message_frames)
  with w that show ?thesis by (simp add: send_message_def)
qed

lemma messages_step:
  assumes "byte_sink R1 view1" "connection R2 view2" "message_codec C I synced"
    and "paired synced sdr rdr" "compression_fits C synced sdr rdr" "\<forall>m\<in>set ms. sendable (sw_config sdr) m"
    and "writable (view1 w1)"
  shows "\<exists>w1' out sdr' rdr'. send_all R1 C ms (sdr, w1) = (Returns (Inr ()), (sdr', w1'))
    \<and> view1 w1' = (view1 w1)\<lparr>outgoing := outgoing (view1 w1) @ out\<rparr>
    \<and> absorbs R2 view2 I rdr out rdr' ms [] \<and> paired synced sdr' rdr'"
  using assms(4-7)
proof (induction ms arbitrary: sdr rdr w1)
  case Nil
  then show ?case
    by (intro exI [of _ w1] exI [of _ "[]"] exI [of _ sdr] exI [of _ rdr]) (simp add: ok_def absorbs_Nil)
next
  case (Cons m ms)
  from Cons.prems(3) have m: "sendable (sw_config sdr) m" by simp
  obtain w2 out sdr1 rdr1 where 1: "send_message R1 C m (sdr, w1) = (Returns (Inr ()), (sdr1, w2))"
    "view1 w2 = (view1 w1)\<lparr>outgoing := outgoing (view1 w1) @ out\<rparr>"
    "absorbs R2 view2 I rdr out rdr1 [m] []" "paired synced sdr1 rdr1"
    "sw_config sdr1 = sw_config sdr" "rs_config rdr1 = rs_config rdr"
    by (rule message_step [OF assms(1-3) Cons.prems(1,2) m Cons.prems(4)])
  from Cons.IH [of sdr1 rdr1 w2] 1 Cons.prems obtain w3 out' sdr2 rdr2 where
    2: "send_all R1 C ms (sdr1, w2) = (Returns (Inr ()), (sdr2, w3))"
    "view1 w3 = (view1 w2)\<lparr>outgoing := outgoing (view1 w2) @ out'\<rparr>"
    "absorbs R2 view2 I rdr1 out' rdr2 ms []" "paired synced sdr2 rdr2"
    by (auto simp: compression_fits_def)
  from absorbs_trans [OF 1(3) 2(3)] 1(1,2) 2 show ?case
    by (intro exI [of _ w3] exI [of _ "out @ out'"] exI [of _ sdr2] exI [of _ rdr2]) (simp add: run)
qed

text \<open>Messages and then a close frame: the loop of the other side ends.\<close>

lemma session_run:
  assumes "byte_sink R1 view1" "connection R2 view2" "message_codec C I synced"
    and "paired synced sdr rdr" "compression_fits C synced sdr rdr" "\<forall>m\<in>set ms. sendable (sw_config sdr) m"
    and "writable (view1 w1)"
    and "await (send_all R1 C ms) (\<lambda>_. close_connection R1) (sdr, w1) = (r, (sdr', w1'))"
    and "punctual (view2 w2)" "writable (view2 w2)" "listening (view2 w2)"
    and "incoming (view2 w2) = drop (length (outgoing (view1 w1))) (outgoing (view1 w1'))"
  shows "r = Returns (Inr ()) \<and>
    (\<exists>rdr' w2' reply. poll_messages R2 I (rdr, w2) = Some (Returns (Inr ()), (rdr', w2'))
       \<and> is_reply op_code.Close [] reply
       \<and> view2 w2' = (view2 w2)\<lparr>incoming := [], delivered := delivered (view2 w2) @ map Inr ms,
             outgoing := outgoing (view2 w2) @ reply\<rparr>)"
proof -
  from messages_step [OF assms(1-7)] obtain w3 out sdr2 rdr2 where
    s: "send_all R1 C ms (sdr, w1) = (Returns (Inr ()), (sdr2, w3))"
      "view1 w3 = (view1 w1)\<lparr>outgoing := outgoing (view1 w1) @ out\<rparr>"
      "absorbs R2 view2 I rdr out rdr2 ms []" by blast
  have "writable (view1 w3)" using s(2) assms(7) by simp
  from byte_sink.write_frames_at [OF assms(1) this, of "[new_frame True op_code.Close [] False]" sdr2]
  obtain w4 out2 where c: "write_frames R1 [new_frame True op_code.Close [] False] (sdr2, w3)
      = (Returns (Inr ()), (sdr2, w4))" "view1 w4 = (view1 w3)\<lparr>outgoing := outgoing (view1 w3) @ out2\<rparr>"
      "carries [new_frame True op_code.Close [] False] out2" by (auto simp: new_frame_def)
  from c(3) obtain key where key: "key_ok key" "out2 = wire_frame key True False op_code.Close [] @ []"
    by (auto elim!: carries_ConsE)
  have r: "r = Returns (Inr ())" and w1': "view1 w1' = view1 w4"
    using assms(8) s(1) c(1) byte_sink.sleep_view [OF assms(1), of 500 w4]
    by (auto simp: run close_connection_def sleep_def)
  have "incoming (view2 w2) = out @ out2"
    using assms(12) w1' c(2) s(2) by simp
  from absorbsE [OF s(3) assms(9-11) this] obtain w5 out5 where
    p: "polls R2 I (rdr, w2) (rdr2, w5)" "carries [] out5"
      "view2 w5 = (view2 w2)\<lparr>incoming := out2, delivered := delivered (view2 w2) @ map Inr ms,
          outgoing := outgoing (view2 w2) @ out5\<rparr>" .
  with assms(9,10) key(2) have q: "punctual (view2 w5)" "writable (view2 w5)"
      "incoming (view2 w5) = wire_frame key True False op_code.Close [] @ []" by simp_all
  have fits: "frame_fits (rs_config rdr2) True False op_code.Close (length ([] :: bytes))"
    by (simp add: frame_fits_def)
  from connection.poll_close [OF assms(2) q(1,3) key(1) fits q(2), of I] obtain w6 reply where
    d: "poll_once R2 I (rdr2, w5) = (Returns (Inr False), (rdr2, w6))"
      "view2 w6 = (view2 w5)\<lparr>incoming := [], outgoing := outgoing (view2 w5) @ reply\<rparr>"
      "is_reply op_code.Close [] reply" .
  have "poll_messages R2 I (rdr, w2) = Some (Returns (Inr ()), (rdr2, w6))"
    using poll_messages_polls [OF p(1)] d(1) by (simp add: poll_messages_last)
  with r d(2,3) p(2,3) show ?thesis
    by (intro conjI exI [of _ rdr2] exI [of _ w6] exI [of _ reply]) simp_all
qed

section \<open>Properties\<close>

text \<open>
  \<^bold>\<open>C2.\<close> Whatever messages one side sends (text or binary, empty or large, compressed or
  not, split into frames by \<open>max_frame_size\<close>, masked or not), the reading loop of the other
  side delivers exactly these messages in this order and writes nothing, and both sides are
  ready for more. This holds for every runtime that behaves as documented, and every codec
  whose decoder inverts its encoder.
\<close>

theorem messages_delivered:
  assumes "byte_sink R1 view1" "connection R2 view2" "message_codec C I synced"
    and "paired synced sdr rdr" "compression_fits C synced sdr rdr" "\<forall>m\<in>set ms. sendable (sw_config sdr) m"
    and "writable (view1 w1)" "send_all R1 C ms (sdr, w1) = (r, (sdr', w1'))"
    and "punctual (view2 w2)" "writable (view2 w2)" "listening (view2 w2)"
    and "incoming (view2 w2) = drop (length (outgoing (view1 w1))) (outgoing (view1 w1')) @ rest"
  shows "r = Returns (Inr ()) \<and>
    (\<exists>rdr' w2'. polls R2 I (rdr, w2) (rdr', w2') \<and> paired synced sdr' rdr'
       \<and> view2 w2' = (view2 w2)\<lparr>incoming := rest, delivered := delivered (view2 w2) @ map Inr ms\<rparr>)"
proof -
  from messages_step [OF assms(1-7)] assms(8) obtain out rdr' where
    s: "r = Returns (Inr ())" "view1 w1' = (view1 w1)\<lparr>outgoing := outgoing (view1 w1) @ out\<rparr>"
      "absorbs R2 view2 I rdr out rdr' ms []" "paired synced sdr' rdr'" by auto
  with assms(12) have "incoming (view2 w2) = out @ rest" by simp
  from absorbsE [OF s(3) assms(9-11) this] obtain w2' out2 where
    "polls R2 I (rdr, w2) (rdr', w2')" "carries [] out2"
    "view2 w2' = (view2 w2)\<lparr>incoming := rest, delivered := delivered (view2 w2) @ map Inr ms,
        outgoing := outgoing (view2 w2) @ out2\<rparr>" .
  with s(1,4) show ?thesis by (intro conjI exI [of _ rdr'] exI [of _ w2']) simp_all
qed

text \<open>Both ends with compression on, over the stored-block codec.\<close>

definition zip_config :: "nat \<Rightarrow> web_socket_config" where
  "zip_config n = \<lparr>max_frame_size = Some 8, max_message_size = Some n,
     ws_extensions = Some (default_extensions\<lparr>permessage_deflate := True\<rparr>)\<rparr>"

definition zip_writer :: "(nat \<times> bytes) ws_writer" where
  "zip_writer = new_ws_writer \<lparr>kind = Client\<rparr> (zip_config 20)
     \<lparr>compressor = (0, []), c_reset_context = False\<rparr>"

definition zip_reader :: "(nat \<times> phase) read_stream" where
  "zip_reader = new_read_stream \<lparr>kind = Server\<rparr> (zip_config 200)
     \<lparr>decompressor = (0, Header), d_reset_context = False\<rparr>"

lemma stored_compress:
  assumes "stored_synced e d" "p \<noteq> []" "compress stored_deflater p e = (Returns (Inr z), e')"
  shows "length z = 6 * length p + 1"
proof -
  let ?z = "concat (map stored_block p) @ [0]"
  have "stored_emits (compressor e) [] p (?z @ DEFLATE_TRAILER) (fst (compressor e) + length p, [])"
    using assms(1,2) by (auto simp: stored_emits_def stored_synced_def stored_stream_def)
  from stored_sink.compress_emits [OF assms(2) this] assms(3) have "z = ?z" by simp
  moreover have "length (concat (map stored_block p)) = 6 * length p"
    by (induction p) (simp_all add: stored_block_def)
  ultimately show ?thesis by simp
qed

lemmas zip_defs =
  zip_writer_def zip_reader_def zip_config_def new_ws_writer_def new_read_stream_def
  frame_limit_def message_limit_def deflate_enabled_def

lemma zip_paired: "paired stored_synced zip_writer zip_reader"
  by (simp add: paired_def zip_defs stored_synced_def)

lemma zip_fits: "compression_fits stored_deflater stored_synced zip_writer zip_reader"
  by (auto simp: compression_fits_def zip_defs dest!: stored_compress)

theorem messages_delivered_witness:
  "\<exists>sdr' w1' rdr' w2'. send_all sim_runtime stored_deflater
         [message.Text [72, 105], message.Binary [1, 2, 3], message.Text []] (zip_writer, sim_peer [])
       = (Returns (Inr ()), (sdr', w1'))
     \<and> polls sim_runtime stored_inflater (zip_reader, sim_peer (sent w1')) (rdr', w2')
     \<and> mailbox w2' = [Inr (message.Text [72, 105]), Inr (message.Binary [1, 2, 3]), Inr (message.Text [])]"
proof -
  let ?ms = "[message.Text [72, 105], message.Binary [1, 2, 3], message.Text []]"
  obtain r sdr' w1' where s: "send_all sim_runtime stored_deflater ?ms (zip_writer, sim_peer [])
      = (r, (sdr', w1'))" by (metis surj_pair)
  have ms: "\<forall>m\<in>set ?ms. sendable (sw_config zip_writer) m"
    by (simp add: sendable_def zip_writer_def zip_config_def new_ws_writer_def message_limit_def
        message_ok_def valid_string_def is_scalar_def as_binary_def encode_utf8_def encode_char_def)
  from messages_delivered [OF sim_sink.byte_sink_axioms sim.connection_axioms
      stored.message_codec_axioms zip_paired zip_fits ms _ s, of "sim_peer (sent w1')" "[]"] s
  show ?thesis by (auto simp: sim_view_def sim_peer_def comp_def list_all_iff)
qed

text \<open>
  \<^bold>\<open>C11.\<close> A whole session: after some messages and \<open>close_connection\<close> on one side, the other
  side's \<open>poll_messages\<close> returns \<open>Ok(())\<close>, having delivered exactly the messages and answered
  with one close frame.
\<close>

theorem session_completes:
  assumes "byte_sink R1 view1" "connection R2 view2" "message_codec C I synced"
    and "paired synced sdr rdr" "compression_fits C synced sdr rdr" "\<forall>m\<in>set ms. sendable (sw_config sdr) m"
    and "writable (view1 w1)" "outgoing (view1 w1) = []"
    and "await (send_all R1 C ms) (\<lambda>_. close_connection R1) (sdr, w1) = (r, (sdr', w1'))"
    and "punctual (view2 w2)" "writable (view2 w2)" "listening (view2 w2)"
    and "incoming (view2 w2) = outgoing (view1 w1')"
  shows "r = Returns (Inr ()) \<and>
    (\<exists>rdr' w2' reply. poll_messages R2 I (rdr, w2) = Some (Returns (Inr ()), (rdr', w2'))
       \<and> is_reply op_code.Close [] reply
       \<and> view2 w2' = (view2 w2)\<lparr>incoming := [], delivered := delivered (view2 w2) @ map Inr ms,
             outgoing := outgoing (view2 w2) @ reply\<rparr>)"
  using session_run [OF assms(1-7,9-12)] assms(8,13) by simp

theorem session_completes_witness:
  "\<exists>sdr' w1' rdr' w2'. await (send_all sim_runtime stored_deflater [message.Text [72, 105]])
         (\<lambda>_. close_connection sim_runtime) (zip_writer, sim_peer []) = (Returns (Inr ()), (sdr', w1'))
     \<and> poll_messages sim_runtime stored_inflater (zip_reader, sim_peer (sent w1'))
       = Some (Returns (Inr ()), (rdr', w2'))
     \<and> mailbox w2' = [Inr (message.Text [72, 105])]"
proof -
  obtain r sdr' w1' where s: "await (send_all sim_runtime stored_deflater [message.Text [72, 105]])
         (\<lambda>_. close_connection sim_runtime) (zip_writer, sim_peer []) = (r, (sdr', w1'))"
    by (metis surj_pair)
  have ms: "\<forall>m\<in>set [message.Text [72, 105]]. sendable (sw_config zip_writer) m"
    by (simp add: sendable_def zip_writer_def zip_config_def new_ws_writer_def message_limit_def
        message_ok_def valid_string_def is_scalar_def as_binary_def encode_utf8_def encode_char_def)
  from session_completes [OF sim_sink.byte_sink_axioms sim.connection_axioms
      stored.message_codec_axioms zip_paired zip_fits ms _ _ s, of "sim_peer (sent w1')"] s
  show ?thesis by (auto simp: sim_view_def sim_peer_def comp_def list_all_iff)
qed

end
