(* ===== verification/Shared.thy ===== *)
theory Shared
  imports Session
begin

text \<open>
  The socket writer behind \<open>Arc<Mutex<Writer>>\<close>: the user's messages (\<open>src/split.rs\<close>) and the
  reader task's replies (\<open>src/read.rs\<close>) are written to it concurrently. Both take the lock for one
  frame, and a frame is written by several calls of \<open>write_all\<close>, between which the other task
  may run. The steps below are these await points. A call of \<open>write_all\<close> may fail after some of
  its bytes; the socket is broken then, and later calls fail without writing anything.
\<close>

section \<open>The calls of a frame (write.rs)\<close>

text \<open>The arguments of the successive calls of \<open>write_all\<close> for one frame.\<close>

definition frame_writes :: "bytes option \<Rightarrow> frame \<Rightarrow> bool \<Rightarrow> bytes list" where
  "frame_writes mk fr set_rsv1 =
     (let payload_len = length (payload fr) in
      case mk of
        None \<Rightarrow>
          [[first_byte fr set_rsv1],
           (if payload_len \<le> 125 then [byte payload_len]
            else if payload_len \<le> 65535 then [126, byte (drop_bit 8 payload_len), byte payload_len]
            else 127 # be_bytes 8 payload_len),
           payload fr]
      | Some key \<Rightarrow>
          [[first_byte fr set_rsv1],
           (if payload_len \<le> 125 then [0x80 OR byte payload_len]
            else if payload_len \<le> 65535 then [126 OR 0x80, byte (drop_bit 8 payload_len), byte payload_len]
            else (127 OR 0x80) # be_bytes 8 payload_len),
           key, mask_from key 0 (payload fr)])"

fun write_each :: "'w runtime \<Rightarrow> bytes list \<Rightarrow> ('w, error, unit) async" where
  "write_each R [] = ok ()"
| "write_each R (bs # bss) = await (wr R bs) (\<lambda>_. write_each R bss)"

lemma await_ok_right: "await m ok = m"
  by (rule ext, case_tac "m x") (auto simp: await_def ok_def split: outcome.splits sum.splits)

lemma await_assoc: "await (await m f) g = await m (\<lambda>x. await (f x) g)"
  by (rule ext) (auto simp: await_def split: outcome.splits sum.splits)

text \<open>\<open>write_frame\<close> makes these calls, in this order, with a key drawn before the first.\<close>

lemma write_frame_server_writes: "write_frame_server R fr z = write_each R (frame_writes None fr z)"
  by (simp add: write_frame_server_def frame_writes_def Let_def await_ok_right if_distrib [of "wr R"])

lemma write_frame_client_writes:
  "write_frame_client R fr z =
     await (draw_u8 R) (\<lambda>m0. await (draw_u8 R) (\<lambda>m1. await (draw_u8 R) (\<lambda>m2. await (draw_u8 R) (\<lambda>m3.
       write_each R (frame_writes (Some [m0, m1, m2, m3]) fr z)))))"
  by (simp add: write_frame_client_def frame_writes_def Let_def await_ok_right await_assoc
      if_distrib [of "\<lambda>m. await m f" for f] if_distrib [of "wr R"] cong: if_cong)

lemma frame_writes_wire:
  "concat (frame_writes mk fr z) = wire_frame mk (final_fragment fr) z (opcode fr) (payload fr)"
  by (cases mk)
    (simp_all add: frame_writes_def wire_frame_def Let_def first_byte_head length_field_code mask_from_payload)

section \<open>A message up to its frames (split.rs)\<close>

definition prepared :: "'c deflater \<Rightarrow> message \<Rightarrow> ('c, 'w, frame list) sending" where
  "prepared C m =
     await get_self (\<lambda>self.
     await (ensure (\<not> message_limit (sw_config self) < length (as_binary m)) MaxMessageSize) (\<lambda>_.
     convert_to_frames C m))"

lemma write_message_prepared: "write_message R C m = await (prepared C m) (write_frames R)"
  by (simp add: write_message_def prepared_def await_assoc)

lemma prepared_convert: "length (as_binary m) \<le> message_limit (sw_config self) \<Longrightarrow>
    prepared C m (self, w) = convert_to_frames C m (self, w)"
  by (simp add: prepared_def run)

definition message_wire :: "frame list \<Rightarrow> frame list" where
  "message_wire frs = flagged (frs \<noteq> [] \<and> compressed (hd frs)) frs"

text \<open>Some messages, one after the other; one that is refused is left out.\<close>

fun prepared_all :: "'c deflater \<Rightarrow> message list \<Rightarrow> 'c ws_writer \<Rightarrow> frame list \<times> 'c ws_writer" where
  "prepared_all C [] self = ([], self)"
| "prepared_all C (m # ms) self =
     (case prepared C m (self, ()) of
        (Returns (Inr frs), (self', _)) \<Rightarrow>
          (let (fs, self'') = prepared_all C ms self' in (message_wire frs @ fs, self''))
      | (Returns (Inl _), (self', _)) \<Rightarrow> prepared_all C ms self'
      | (_, (self', _)) \<Rightarrow> ([], self'))"

section \<open>Two tasks and a lock\<close>

datatype side = Sending_user | Reader_task

text \<open>
  The bytes written to the socket and whether a write has failed; the holder of the lock with the
  calls it still has to make; the user's writer, the messages it has still to send and the local
  state of \<open>write_frames\<close> for the current one (the frames still to come and
  \<open>set_rsv1_first_frame\<close>); whether the reader task runs and the reply it wants to write.
  \<open>sh_log\<close> records whose frame took the lock when, \<open>sh_begun\<close> the frames of the messages begun.
\<close>

record 'c shared =
  sh_written :: bytes
  sh_broken :: bool
  sh_lock :: "(side \<times> bytes list) option"
  sh_writer :: "'c ws_writer"
  sh_todo :: "message list"
  sh_frames :: "frame list"
  sh_rsv1 :: bool
  sh_reading :: bool
  sh_reply :: "frame option"
  sh_log :: "(side \<times> frame) list"
  sh_begun :: "frame list"

definition shared_start :: "'c ws_writer \<Rightarrow> message list \<Rightarrow> 'c shared" where
  "shared_start wtr ms = \<lparr>sh_written = [], sh_broken = False, sh_lock = None, sh_writer = wtr,
     sh_todo = ms, sh_frames = [], sh_rsv1 = False, sh_reading = True, sh_reply = None, sh_log = [],
     sh_begun = []\<rparr>"

definition mask_for :: "writer_kind \<Rightarrow> bytes option \<Rightarrow> bool" where
  "mask_for k mk \<longleftrightarrow> key_ok mk \<and> (mk = None \<longleftrightarrow> k = Server)"

definition holds :: "side \<Rightarrow> 'c shared \<Rightarrow> bool" where
  "holds sd s \<longleftrightarrow> (\<exists>bss. sh_lock s = Some (sd, bss))"

definition idle :: "side \<Rightarrow> 'c shared \<Rightarrow> bool" where
  "idle sd s \<longleftrightarrow> \<not> holds sd s \<and> (case sd of Sending_user \<Rightarrow> sh_frames s = [] | Reader_task \<Rightarrow> sh_reply s = None)"

text \<open>A task whose write fails: \<open>write_frames\<close> returns the error; the reader task ends.\<close>

definition gives_up :: "side \<Rightarrow> 'c shared \<Rightarrow> 'c shared" where
  "gives_up sd s = (case sd of
     Sending_user \<Rightarrow> s\<lparr>sh_frames := []\<rparr> | Reader_task \<Rightarrow> s\<lparr>sh_reading := False, sh_reply := None\<rparr>)"

inductive shared_step :: "'c deflater \<Rightarrow> 'c shared \<Rightarrow> 'c shared \<Rightarrow> bool" for C :: "'c deflater" where
  user_begins: "idle Sending_user s \<Longrightarrow> sh_todo s = m # ms \<Longrightarrow>
     prepared C m (sh_writer s, ()) = (Returns (Inr frs), (wtr, ())) \<Longrightarrow>
     shared_step C s (s\<lparr>sh_writer := wtr, sh_todo := ms, sh_frames := frs,
       sh_rsv1 := (frs \<noteq> [] \<and> compressed (hd frs)), sh_begun := sh_begun s @ message_wire frs\<rparr>)"
| user_refused: "idle Sending_user s \<Longrightarrow> sh_todo s = m # ms \<Longrightarrow>
     prepared C m (sh_writer s, ()) = (Returns (Inl e), (wtr, ())) \<Longrightarrow>
     shared_step C s (s\<lparr>sh_writer := wtr, sh_todo := ms\<rparr>)"
| user_panics: "idle Sending_user s \<Longrightarrow> sh_todo s = m # ms \<Longrightarrow>
     prepared C m (sh_writer s, ()) = (Panics, (wtr, ())) \<Longrightarrow>
     shared_step C s (s\<lparr>sh_writer := wtr, sh_todo := []\<rparr>)"
| user_locks: "sh_lock s = None \<Longrightarrow> sh_frames s = fr # frs \<Longrightarrow> mask_for (kind (sw_writer (sh_writer s))) mk \<Longrightarrow>
     shared_step C s (s\<lparr>sh_lock := Some (Sending_user, frame_writes mk fr (sh_rsv1 s)),
       sh_frames := frs, sh_rsv1 := False,
       sh_log := sh_log s @ [(Sending_user, fr\<lparr>compressed := sh_rsv1 s\<rparr>)]\<rparr>)"
| reader_replies: "idle Reader_task s \<Longrightarrow> sh_reading s \<Longrightarrow> shared_step C s (s\<lparr>sh_reply := Some fr\<rparr>)"
| reader_locks: "sh_lock s = None \<Longrightarrow> sh_reply s = Some fr \<Longrightarrow> mask_for (kind (sw_writer (sh_writer s))) mk \<Longrightarrow>
     shared_step C s (s\<lparr>sh_lock := Some (Reader_task, frame_writes mk fr False), sh_reply := None,
       sh_log := sh_log s @ [(Reader_task, fr\<lparr>compressed := False\<rparr>)]\<rparr>)"
| reader_ends: "idle Reader_task s \<Longrightarrow> shared_step C s (s\<lparr>sh_reading := False\<rparr>)"
| writes: "sh_lock s = Some (sd, bs # bss) \<Longrightarrow> \<not> sh_broken s \<or> bs = [] \<Longrightarrow>
     shared_step C s (s\<lparr>sh_written := sh_written s @ bs, sh_lock := Some (sd, bss)\<rparr>)"
| write_fails: "sh_lock s = Some (sd, bs # bss) \<Longrightarrow> strict_prefix p bs \<Longrightarrow> \<not> sh_broken s \<or> p = [] \<Longrightarrow>
     shared_step C s (gives_up sd (s\<lparr>sh_written := sh_written s @ p, sh_broken := True, sh_lock := None\<rparr>))"
| unlocks: "sh_lock s = Some (sd, []) \<Longrightarrow> shared_step C s (s\<lparr>sh_lock := None\<rparr>)"

inductive shared_runs :: "'c deflater \<Rightarrow> 'c shared \<Rightarrow> 'c shared \<Rightarrow> bool" for C :: "'c deflater" where
  shared_refl: "shared_runs C s s"
| shared_next: "shared_runs C s s1 \<Longrightarrow> shared_step C s1 s2 \<Longrightarrow> shared_runs C s s2"

section \<open>Frames stay whole and in order\<close>

text \<open>
  While no write has failed: what is written and what the holder of the lock has still to write
  make up the frames that took the lock, and those of the user and those still to come make up
  the frames of the messages begun.
\<close>

definition unwritten :: "'c shared \<Rightarrow> bytes" where
  "unwritten s = (case sh_lock s of None \<Rightarrow> [] | Some (sd, bss) \<Rightarrow> concat bss)"

definition written_by :: "side \<Rightarrow> 'c shared \<Rightarrow> frame list" where
  "written_by sd s = map snd (filter (\<lambda>x. fst x = sd) (sh_log s))"

definition whole :: "'c shared \<Rightarrow> bool" where
  "whole s \<longleftrightarrow> carries (map snd (sh_log s)) (sh_written s @ unwritten s)
     \<and> written_by Sending_user s @ flagged (sh_rsv1 s) (sh_frames s) = sh_begun s"

text \<open>Afterwards: the bytes written are a beginning of a run of whole frames.\<close>

definition cut_off :: "'c shared \<Rightarrow> bool" where
  "cut_off s \<longleftrightarrow> (\<exists>n bs. carries (map snd (take n (sh_log s))) (sh_written s @ bs))"

definition shared_inv :: "'c shared \<Rightarrow> bool" where
  "shared_inv s \<longleftrightarrow> (if sh_broken s then cut_off s else whole s)"

definition plan_kept :: "'c deflater \<Rightarrow> frame list \<times> 'c ws_writer \<Rightarrow> 'c shared \<Rightarrow> bool" where
  "plan_kept C plan s \<longleftrightarrow> map_prod ((@) (sh_begun s)) id (prepared_all C (sh_todo s) (sh_writer s)) = plan"

lemmas shared_defs = shared_inv_def whole_def cut_off_def unwritten_def written_by_def mask_for_def
  gives_up_def holds_def idle_def message_wire_def

lemma carries_snoc:
  assumes "carries fs bs" "key_ok mk"
  shows "carries (fs @ [fr\<lparr>compressed := z\<rparr>]) (bs @ concat (frame_writes mk fr z))"
  using carries_append [OF assms(1) carries_one [OF assms(2), of "fr\<lparr>compressed := z\<rparr>"]]
  by (simp add: frame_writes_wire)

lemma cut_off_log: "cut_off s \<Longrightarrow> sh_log s' = sh_log s @ xs \<Longrightarrow> sh_written s' = sh_written s \<Longrightarrow> cut_off s'"
proof -
  assume a: "sh_log s' = sh_log s @ xs" "sh_written s' = sh_written s"
  assume "cut_off s"
  then obtain n bs where "carries (map snd (take n (sh_log s))) (sh_written s @ bs)" by (auto simp: cut_off_def)
  moreover have "take n (sh_log s) = take (min n (length (sh_log s))) (sh_log s')"
    by (simp add: a min_def)
  ultimately show "cut_off s'" unfolding cut_off_def a(2) by metis
qed

lemma broken_step: "shared_step C s s' \<Longrightarrow> sh_broken s \<Longrightarrow>
    sh_broken s' \<and> sh_written s' = sh_written s \<and> (\<exists>xs. sh_log s' = sh_log s @ xs)"
  by (induction rule: shared_step.induct) (auto simp: gives_up_def split: side.splits)

lemma whole_step: "shared_step C s s' \<Longrightarrow> \<not> sh_broken s \<Longrightarrow> whole s \<Longrightarrow> shared_inv s'"
proof (induction rule: shared_step.induct)
  case (write_fails s sd bs bss p)
  from write_fails.hyps(2) obtain q where "bs = p @ q" by (auto simp: strict_prefix_def prefix_def)
  with write_fails show ?case
    by (auto simp: shared_defs split: side.splits intro!: exI [of _ "length (sh_log s)"] exI [of _ "q @ concat bss"])
qed (auto simp: shared_defs dest: carries_snoc split: side.splits)

lemma shared_step_inv: "shared_step C s s' \<Longrightarrow> shared_inv s \<Longrightarrow> shared_inv s'"
  using broken_step cut_off_log whole_step by (metis shared_inv_def)

lemma plan_step: "shared_step C s s' \<Longrightarrow> plan_kept C plan s \<Longrightarrow> plan_kept C plan s'"
  by (induction rule: shared_step.induct)
     (auto simp: plan_kept_def gives_up_def split: side.splits prod.splits)

lemma shared_runs_inv:
  "shared_runs C s s' \<Longrightarrow> shared_inv s \<and> plan_kept C plan s \<Longrightarrow> shared_inv s' \<and> plan_kept C plan s'"
  by (induction rule: shared_runs.induct) (auto dest: shared_step_inv plan_step)

lemma shared_start_inv: "shared_inv (shared_start wtr ms) \<and> plan_kept C (prepared_all C ms wtr) (shared_start wtr ms)"
  by (cases "prepared_all C ms wtr") (simp add: shared_inv_def whole_def shared_start_def unwritten_def
      written_by_def plan_kept_def carries_Nil)

section \<open>A broken socket stays silent, and the lock is always released\<close>

lemma broken_runs: "shared_runs C s s' \<Longrightarrow> sh_broken s \<Longrightarrow> sh_broken s' \<and> sh_written s' = sh_written s"
  by (induction rule: shared_runs.induct) (auto dest: broken_step)

lemma shared_drain:
  assumes "shared_runs C s0 s" "sh_lock s = Some (sd, bss)"
  shows "\<exists>s'. shared_runs C s0 s' \<and> sh_lock s' = None \<and> length (sh_frames s') \<le> length (sh_frames s)
    \<and> (\<not> sh_broken s \<longrightarrow> s' = s\<lparr>sh_written := sh_written s @ concat bss, sh_lock := None\<rparr>)"
  using assms
proof (induction bss arbitrary: s)
  case Nil
  from shared_next [OF Nil(1) unlocks [OF Nil(2)]] show ?case
    by (intro exI [of _ "s\<lparr>sh_lock := None\<rparr>"]) simp
next
  case (Cons bs bss)
  show ?case
  proof (cases "sh_broken s \<and> bs \<noteq> []")
    case True
    then have "strict_prefix [] bs" by (auto simp: strict_prefix_def)
    from shared_next [OF Cons.prems(1) write_fails [OF Cons.prems(2) this]] True show ?thesis
      by (intro exI [of _ "gives_up sd (s\<lparr>sh_written := sh_written s @ [], sh_broken := True, sh_lock := None\<rparr>)"])
        (simp add: gives_up_def split: side.split)
  next
    case False
    then have "\<not> sh_broken s \<or> bs = []" by simp
    from Cons.IH [OF shared_next [OF Cons.prems(1) writes [OF Cons.prems(2) this]]] show ?thesis by simp
  qed
qed

lemma user_locks_next:
  assumes "shared_runs C s0 s" "sh_lock s = None" "sh_frames s = fr # frs"
    "mask_for (kind (sw_writer (sh_writer s))) mk"
  shows "\<exists>s'. shared_runs C s0 s' \<and> sh_lock s' = None \<and> length (sh_frames s') \<le> length frs
    \<and> (\<not> sh_broken s \<longrightarrow> s' = s\<lparr>sh_written := sh_written s @ concat (frame_writes mk fr (sh_rsv1 s)),
    sh_frames := frs, sh_rsv1 := False, sh_log := sh_log s @ [(Sending_user, fr\<lparr>compressed := sh_rsv1 s\<rparr>)]\<rparr>)"
  using shared_drain [OF shared_next [OF assms(1) user_locks [OF assms(2-4)]]] assms(2) by (cases s) simp

lemma user_turn:
  assumes "shared_runs C s0 s" "sh_lock s = None" "sh_frames s = fr # frs"
    "mask_for (kind (sw_writer (sh_writer s))) mk" "\<not> sh_broken s"
  shows "shared_runs C s0 (s\<lparr>sh_written := sh_written s @ concat (frame_writes mk fr (sh_rsv1 s)),
    sh_frames := frs, sh_rsv1 := False, sh_log := sh_log s @ [(Sending_user, fr\<lparr>compressed := sh_rsv1 s\<rparr>)]\<rparr>)"
  using user_locks_next [OF assms(1-4)] assms(5) by auto

lemma reader_turn:
  assumes "shared_runs C s0 s" "sh_lock s = None" "sh_reply s = Some fr"
    "mask_for (kind (sw_writer (sh_writer s))) mk" "\<not> sh_broken s"
  shows "shared_runs C s0 (s\<lparr>sh_written := sh_written s @ concat (frame_writes mk fr False),
    sh_reply := None, sh_log := sh_log s @ [(Reader_task, fr\<lparr>compressed := False\<rparr>)]\<rparr>)"
  using shared_drain [OF shared_next [OF assms(1) reader_locks [OF assms(2-4)]]] assms(2,5) by (cases s) simp

lemma mask_for_some: "mask_for k (if k = Server then None else Some [0, 0, 0, 0])"
  by (cases k) (simp_all add: mask_for_def)

lemma shared_finishes: "\<exists>s'. shared_runs C s s' \<and> sh_frames s' = [] \<and> sh_lock s' = None"
proof -
  have "\<exists>s1. shared_runs C s s1 \<and> sh_lock s1 = None"
    using shared_drain [OF shared_refl, where s = s] by (cases "sh_lock s") (force intro: shared_refl)+
  then obtain s1 where "shared_runs C s s1" "sh_lock s1 = None" by blast
  then show ?thesis
  proof (induction "length (sh_frames s1)" arbitrary: s1 rule: less_induct)
    case less
    show ?case
    proof (cases "sh_frames s1")
      case Nil
      with less.prems show ?thesis by auto
    next
      case (Cons fr frs)
      from user_locks_next [OF less.prems Cons mask_for_some] obtain s2 where
        "shared_runs C s s2" "sh_lock s2 = None" "length (sh_frames s2) \<le> length frs" by blast
      with less.hyps [of s2] Cons show ?thesis by simp
    qed
  qed
qed

section \<open>What arrives\<close>

lemma data_frames_log:
  assumes "\<forall>x\<in>set xs. fst x = Reader_task \<longrightarrow> ping_pong config (snd x)"
    and "\<forall>fr\<in>set (map snd (filter (\<lambda>x. fst x = Sending_user) xs)). \<not> is_control (opcode fr)"
  shows "mixed config (map snd xs) (map snd (filter (\<lambda>x. fst x = Sending_user) xs))"
proof -
  have own: "is_control (opcode (snd x)) \<longleftrightarrow> fst x = Reader_task"
      "is_control (opcode (snd x)) \<longrightarrow> ping_pong config (snd x)" if "x \<in> set xs" for x
  proof -
    have "is_control (opcode (snd x)) \<and> ping_pong config (snd x)" if "fst x = Reader_task"
      using assms(1) \<open>x \<in> set xs\<close> that ping_pong_control by blast
    moreover have "\<not> is_control (opcode (snd x))" if "fst x = Sending_user"
    proof -
      have "snd x \<in> set (map snd (filter (\<lambda>x. fst x = Sending_user) xs))"
        using \<open>x \<in> set xs\<close> that by simp
      with assms(2) show ?thesis by blast
    qed
    ultimately show "is_control (opcode (snd x)) \<longleftrightarrow> fst x = Reader_task"
      "is_control (opcode (snd x)) \<longrightarrow> ping_pong config (snd x)"
      by (cases "fst x"; blast)+
  qed
  have "data_frames (map snd xs) = map snd (filter (\<lambda>x. \<not> is_control (opcode (snd x))) xs)"
    by (simp add: data_frames_def filter_map comp_def)
  also have "filter (\<lambda>x. \<not> is_control (opcode (snd x))) xs = filter (\<lambda>x. fst x = Sending_user) xs"
    using own(1) side.exhaust by (intro filter_cong refl) (metis side.distinct(1))
  finally show ?thesis using own(2) by (auto simp: mixed_def)
qed

lemma message_data: "fr \<in> set (message_frames z (message_opcode m) ps) \<Longrightarrow> \<not> is_control (opcode fr)"
proof -
  have "message_opcode m = op_code.Text \<or> message_opcode m = op_code.Binary"
    by (cases m) (simp_all add: message_opcode_def)
  moreover assume "fr \<in> set (message_frames z (message_opcode m) ps)"
  ultimately have "opcode fr = op_code.Text \<or> opcode fr = op_code.Binary \<or> opcode fr = op_code.Continue"
    using message_frames_data by metis
  then show ?thesis by (elim disjE) simp_all
qed


lemma prepared_deflated:
  assumes "deflated C self (as_binary m) z data enc" "0 < frame_limit (sw_config self)"
    and "length (as_binary m) \<le> message_limit (sw_config self)"
  obtains frs where "prepared C m (self, ()) = (Returns (Inr frs), (self\<lparr>sw_encoder := enc\<rparr>, ()))"
    "message_wire frs = message_frames z (message_opcode m) (pieces (frame_limit (sw_config self)) data)"
proof -
  from convert_to_frames_deflated [OF assms(1,2)] obtain frs where
    "convert_to_frames C m (self, ()) = (Returns (Inr frs), (self\<lparr>sw_encoder := enc\<rparr>, ()))" "frs \<noteq> []"
    "flagged (compressed (hd frs)) frs = message_frames z (message_opcode m) (pieces (frame_limit (sw_config self)) data)" .
  then show ?thesis by (intro that [of frs]) (simp_all add: prepared_convert [OF assms(3)] message_wire_def)
qed

lemma log_split:
  assumes "map snd (filter (\<lambda>x. fst x = Sending_user) xs) = fs @ gs"
  obtains xs1 xs2 where "xs = xs1 @ xs2" "map snd (filter (\<lambda>x. fst x = Sending_user) xs1) = fs"
    "map snd (filter (\<lambda>x. fst x = Sending_user) xs2) = gs"
proof -
  from assms obtain ys zs where "filter (\<lambda>x. fst x = Sending_user) xs = ys @ zs" and m: "map snd ys = fs" "map snd zs = gs"
    by (auto simp: map_eq_append_conv)
  from filter_append_split [OF this(1)] m that show ?thesis by metis
qed

text \<open>A log with the frames of some messages and, among them, the replies of the reader task.\<close>

lemma log_absorbed:
  assumes "connection R2 view2" "message_codec C I synced"
    and "paired synced sdr rdr" "compression_fits C synced sdr rdr" "\<forall>m\<in>set ms. sendable (sw_config sdr) m"
    and "prepared_all C ms sdr = (map snd (filter (\<lambda>x. fst x = Sending_user) xs), sdr')"
    and "\<forall>x\<in>set xs. fst x = Reader_task \<longrightarrow> ping_pong (rs_config rdr) (snd x)"
    and "carries (map snd xs) out"
  shows "\<exists>rdr'. absorbs R2 view2 I rdr out rdr' ms (pongs (map snd xs)) \<and> paired synced sdr' rdr'"
  using assms(3-8)
proof (induction ms arbitrary: sdr rdr xs out)
  case Nil
  from Nil(4) have f: "\<forall>x\<in>set xs. fst x = Reader_task" and e: "sdr' = sdr"
    using side.exhaust by (auto simp: filter_empty_conv)
  from f Nil(5) have "\<forall>fr\<in>set (map snd xs). ping_pong (rs_config rdr) fr" by auto
  from connection.absorbs_ping_pongs [OF assms(1) Nil(6) this] Nil(1) e show ?case by blast
next
  case (Cons m ms)
  let ?n = "frame_limit (sw_config sdr)"
  from Cons.prems(1) have sy: "synced (sw_encoder sdr) (rs_decoder rdr)" and n: "0 < ?n" by (auto simp: paired_def)
  from Cons.prems(3) have m: "sendable (sw_config sdr) m" by simp
  from message_codec.deflated_inflated [OF assms(2) sy, of "as_binary m"] obtain z data enc where
    d: "deflated C sdr (as_binary m) z data enc" by blast
  let ?ds = "message_frames z (message_opcode m) (pieces ?n data)" and ?sdr = "sdr\<lparr>sw_encoder := enc\<rparr>"
  from prepared_deflated [OF d n] m obtain frs where
    "prepared C m (sdr, ()) = (Returns (Inr frs), (?sdr, ()))" "message_wire frs = ?ds"
    by (auto simp: sendable_def)
  with Cons.prems(4) obtain gs where g: "prepared_all C ms ?sdr = (gs, sdr')"
    "map snd (filter (\<lambda>x. fst x = Sending_user) xs) = ?ds @ gs" by (auto split: prod.splits)
  from log_split [OF g(2)] obtain xs1 xs2 where xs: "xs = xs1 @ xs2"
    "map snd (filter (\<lambda>x. fst x = Sending_user) xs1) = ?ds"
    "map snd (filter (\<lambda>x. fst x = Sending_user) xs2) = gs" .
  from carries_appendD [of "map snd xs1" "map snd xs2" out] Cons.prems(6) xs(1) obtain o1 o2 where
    o: "out = o1 @ o2" "carries (map snd xs1) o1" "carries (map snd xs2) o2" by auto
  have "mixed (rs_config rdr) (map snd xs1) ?ds"
    using data_frames_log [of xs1 "rs_config rdr"] message_data Cons.prems(5) unfolding xs(1,2) by auto
  from frames_absorbed [OF assms(1,2) Cons.prems(1,2) m d o(2) this] obtain rdr1 where
    1: "absorbs R2 view2 I rdr o1 rdr1 [m] (pongs (map snd xs1))" "paired synced ?sdr rdr1"
      "rs_config rdr1 = rs_config rdr" .
  have "compression_fits C synced ?sdr rdr1" using Cons.prems(2) 1(3) by (simp add: compression_fits_def)
  from Cons.IH [OF 1(2) this _ _ _ o(3)] g(1) xs Cons.prems(3,5) 1(3) obtain rdr2 where
    2: "absorbs R2 view2 I rdr1 o2 rdr2 ms (pongs (map snd xs2))" "paired synced sdr' rdr2" by auto
  from absorbs_trans [OF 1(1) 2(1)] 2(2) xs(1) o(1) show ?case by auto
qed

section \<open>Properties\<close>

lemma shared_from_start:
  assumes "shared_runs C (shared_start wtr ms) s"
  shows "shared_inv s" "prepared_all C ms wtr
    = (sh_begun s @ fst (prepared_all C (sh_todo s) (sh_writer s)), snd (prepared_all C (sh_todo s) (sh_writer s)))"
  using shared_runs_inv [OF assms shared_start_inv]
  by (auto simp: plan_kept_def map_prod_def split: prod.splits)

text \<open>
  \<^bold>\<open>C13.\<close> However the user's task and the reader task interleave, the bytes on the socket are, as
  long as no write fails, a beginning of whole frames, one after the other in the order in which
  the lock was taken, and nothing but whole frames when the lock is free; the user's frames are
  among them in the order of the messages, RSV1 on the first of a message only. After a failed
  write the bytes stay a beginning of whole frames for good. The lock is always given back.
\<close>

theorem frames_not_torn:
  assumes "shared_runs C (shared_start wtr ms) s"
  shows "(if sh_broken s
    then (\<exists>n bs. carries (map snd (take n (sh_log s))) (sh_written s @ bs))
      \<and> (\<forall>s'. shared_runs C s s' \<longrightarrow> sh_written s' = sh_written s)
    else (\<exists>bs. carries (map snd (sh_log s)) (sh_written s @ bs) \<and> (sh_lock s = None \<longrightarrow> bs = []))
      \<and> written_by Sending_user s @ flagged (sh_rsv1 s) (sh_frames s) @ fst (prepared_all C (sh_todo s) (sh_writer s))
          = fst (prepared_all C ms wtr))
    \<and> (\<exists>s'. shared_runs C s s' \<and> sh_frames s' = [] \<and> sh_lock s' = None)"
proof (rule conjI, goal_cases)
  case 1
  from shared_from_start [OF assms] show ?case
    using broken_runs [of C s]
    by (auto simp: shared_inv_def cut_off_def whole_def unwritten_def intro!: exI [of _ "unwritten s"]
        simp flip: append_assoc)
qed (rule shared_finishes)

text \<open>A message in two frames, with a control frame that takes the lock between them.\<close>

definition plain_writer :: "writer_kind \<Rightarrow> (nat \<times> bytes) ws_writer" where
  "plain_writer k = new_ws_writer \<lparr>kind = k\<rparr>
     \<lparr>max_frame_size = Some 1, max_message_size = Some 8, ws_extensions = None\<rparr>
     \<lparr>compressor = (0, []), c_reset_context = False\<rparr>"

definition sim_text :: frame where
  "sim_text = new_frame False op_code.Text [72] False"

definition sim_rest :: frame where
  "sim_rest = new_frame True op_code.Continue [105] False"

definition sim_frames :: "frame list" where
  "sim_frames = [sim_text, sim_rest]"

abbreviation (input) sim_state :: "writer_kind \<Rightarrow> bytes \<Rightarrow> bool \<Rightarrow> (side \<times> bytes list) option
    \<Rightarrow> frame list \<Rightarrow> frame option \<Rightarrow> (side \<times> frame) list \<Rightarrow> (nat \<times> bytes) shared" where
  "sim_state k bs b lk frs reply lg \<equiv> \<lparr>sh_written = bs, sh_broken = b, sh_lock = lk, sh_writer = plain_writer k,
     sh_todo = [], sh_frames = frs, sh_rsv1 = False, sh_reading = True, sh_reply = reply, sh_log = lg,
     sh_begun = sim_frames\<rparr>"

abbreviation (input) sim_runs :: "writer_kind \<Rightarrow> (nat \<times> bytes) shared \<Rightarrow> bool" where
  "sim_runs k \<equiv> shared_runs stored_deflater (shared_start (plain_writer k) [message.Text [72, 105]])"

definition sim_interleaved :: "writer_kind \<Rightarrow> bytes option \<Rightarrow> frame \<Rightarrow> (nat \<times> bytes) shared" where
  "sim_interleaved k mk fr = sim_state k
     (concat (map (\<lambda>f. concat (frame_writes mk f False)) [sim_text, fr, sim_rest])) False None [] None
     [(Sending_user, sim_text), (Reader_task, fr), (Sending_user, sim_rest)]"

definition sim_shared :: "(nat \<times> bytes) shared" where
  "sim_shared = sim_interleaved Server None (new_frame True op_code.Pong [9] False)"

definition sim_cut :: "(nat \<times> bytes) shared" where
  "sim_cut = sim_state Server [0x01, 1, 72, 0x80] True None [] None
     [(Sending_user, sim_text), (Sending_user, sim_rest)]"

lemma sim_prepared: "prepared stored_deflater (message.Text [72, 105]) (plain_writer k, ())
    = (Returns (Inr sim_frames), (plain_writer k, ()))"
  by (cases k; code_simp)

lemma sim_frames_plain: "message_wire sim_frames = sim_frames" "sim_text\<lparr>compressed := False\<rparr> = sim_text"
    "sim_rest\<lparr>compressed := False\<rparr> = sim_rest" "\<not> compressed (hd sim_frames)" "sim_frames \<noteq> []"
  by (simp_all add: sim_frames_def sim_text_def sim_rest_def message_wire_def new_frame_def)

lemma sim_begun: "sim_runs k (sim_state k [] False None [sim_text, sim_rest] None [])"
  using shared_next [OF shared_refl user_begins
      [where s = "shared_start (plain_writer k) [message.Text [72, 105]]" and m = "message.Text [72, 105]" and ms = "[]"
        and frs = sim_frames and wtr = "plain_writer k" and C = stored_deflater]] sim_prepared
  by (simp add: shared_start_def idle_def holds_def sim_frames_plain) (simp add: sim_frames_def)

lemma sim_interleaved:
  assumes "mask_for k mk" "\<not> compressed fr"
  shows "sim_runs k (sim_interleaved k mk fr)"
proof -
  have m: "mask_for (kind (sw_writer (plain_writer k))) mk" using assms(1) by (simp add: plain_writer_def new_ws_writer_def)
  have c: "fr\<lparr>compressed := False\<rparr> = fr" using assms(2) by simp
  let ?w = "\<lambda>f. concat (frame_writes mk f False)"
  from user_turn [OF sim_begun, of k sim_text "[sim_rest]" mk] m
  have "sim_runs k (sim_state k (?w sim_text) False None [sim_rest] None [(Sending_user, sim_text)])"
    by (simp add: sim_frames_plain)
  from shared_next [OF this reader_replies, of fr]
  have "sim_runs k (sim_state k (?w sim_text) False None [sim_rest] (Some fr)
      [(Sending_user, sim_text)])" by (simp add: idle_def holds_def)
  from reader_turn [OF this, of fr mk] m
  have "sim_runs k (sim_state k (?w sim_text @ ?w fr) False None [sim_rest] None
      [(Sending_user, sim_text), (Reader_task, fr)])" by (simp add: c)
  from user_turn [OF this, of sim_rest "[]" mk] m show ?thesis
    by (simp add: sim_interleaved_def sim_frames_plain)
qed

lemma sim_shared: "sim_runs Server sim_shared"
  by (simp add: sim_shared_def sim_interleaved mask_for_def new_frame_def)

lemma sim_writes: "frame_writes None sim_text False = [[0x01], [1], [72]]"
    "frame_writes None sim_rest False = [[0x80], [1], [105]]"
  by code_simp+

lemma sim_cut: "sim_runs Server sim_cut"
proof -
  have m: "mask_for (kind (sw_writer (plain_writer Server))) None"
    by (simp add: mask_for_def plain_writer_def new_ws_writer_def)
  from user_turn [OF sim_begun, of Server sim_text "[sim_rest]" None] m
  have "sim_runs Server (sim_state Server [0x01, 1, 72] False None [sim_rest] None [(Sending_user, sim_text)])"
    by (simp add: sim_writes sim_frames_plain)
  from shared_next [OF this user_locks, of sim_rest "[]" None] m
  have "sim_runs Server (sim_state Server [0x01, 1, 72] False (Some (Sending_user, [[0x80], [1], [105]])) [] None
      [(Sending_user, sim_text), (Sending_user, sim_rest)])" by (simp add: sim_writes sim_frames_plain)
  from shared_next [OF this writes]
  have "sim_runs Server (sim_state Server [0x01, 1, 72, 0x80] False (Some (Sending_user, [[1], [105]])) [] None
      [(Sending_user, sim_text), (Sending_user, sim_rest)])" by simp
  from shared_next [OF this write_fails, of Sending_user "[1]" "[[105]]" "[]"]
  show ?thesis by (simp add: sim_cut_def gives_up_def strict_prefix_def)
qed

text \<open>
  That the user waits for the end of a send is needed: a send whose future is dropped, by a
  timeout or in a \<open>select!\<close>, gives back the lock in the middle of a frame.
\<close>

definition dropped :: "'c shared \<Rightarrow> 'c shared" where
  "dropped s = s\<lparr>sh_frames := [], sh_lock := (if holds Sending_user s then None else sh_lock s)\<rparr>"

lemma carries_length: "carries fs bs \<Longrightarrow> length bs \<noteq> 1"
  by (induction rule: carries.induct) (auto simp: wire_frame_def length_field_def)

lemma dropped_send_tears_frame:
  "\<exists>s. sim_runs Server s \<and> \<not> sh_broken s \<and> sh_lock (dropped s) = None
     \<and> \<not> (\<exists>fs. carries fs (sh_written (dropped s)))"
proof -
  have m: "mask_for (kind (sw_writer (plain_writer Server))) None"
    by (simp add: mask_for_def plain_writer_def new_ws_writer_def)
  from shared_next [OF sim_begun user_locks, of Server sim_text "[sim_rest]" None] m
  have "sim_runs Server (sim_state Server [] False (Some (Sending_user, [[0x01], [1], [72]])) [sim_rest] None
      [(Sending_user, sim_text)])" by (simp add: sim_writes sim_frames_plain)
  from shared_next [OF this writes]
  have "sim_runs Server (sim_state Server [0x01] False (Some (Sending_user, [[1], [72]])) [sim_rest] None
      [(Sending_user, sim_text)])" by simp
  then show ?thesis
    using carries_length [of _ "[0x01]"] by (intro exI conjI) (assumption, auto simp: dropped_def holds_def)
qed

theorem frames_not_torn_witness:
  "(\<exists>bs. carries (map snd (sh_log sim_shared)) (sh_written sim_shared @ bs) \<and> bs = [])
   \<and> (\<exists>n bs. carries (map snd (take n (sh_log sim_cut))) (sh_written sim_cut @ bs))"
  using frames_not_torn [OF sim_shared] frames_not_torn [OF sim_cut]
  by (simp add: sim_shared_def sim_interleaved_def sim_cut_def)

lemma messages_cross:
  assumes "connection R2 view2" "message_codec C I synced" "paired synced sdr rdr"
    and "compression_fits C synced sdr rdr" "\<forall>m\<in>set ms. sendable (sw_config sdr) m"
    and "shared_runs C (shared_start sdr ms) s" "sh_todo s = []" "sh_frames s = []" "sh_lock s = None"
    and "\<not> sh_broken s" "\<forall>x\<in>set (sh_log s). fst x = Reader_task \<longrightarrow> ping_pong (rs_config rdr) (snd x)"
    and "punctual (view2 w2)" "writable (view2 w2)" "listening (view2 w2)"
    and "incoming (view2 w2) = sh_written s @ rest"
  shows "\<exists>rdr' w2' out. polls R2 I (rdr, w2) (rdr', w2') \<and> paired synced (sh_writer s) rdr'
    \<and> carries (pongs (map snd (sh_log s))) out
    \<and> view2 w2' = (view2 w2)\<lparr>incoming := rest, delivered := delivered (view2 w2) @ map Inr ms,
          outgoing := outgoing (view2 w2) @ out\<rparr>"
proof -
  note st = shared_from_start [OF assms(6)]
  from st(1) assms(8-10) have c: "carries (map snd (sh_log s)) (sh_written s)"
    "map snd (filter (\<lambda>x. fst x = Sending_user) (sh_log s)) = sh_begun s"
    by (simp_all add: shared_inv_def whole_def unwritten_def written_by_def)
  from st(2) assms(7) have
    "prepared_all C ms sdr = (map snd (filter (\<lambda>x. fst x = Sending_user) (sh_log s)), sh_writer s)"
    by (simp add: c(2))
  from log_absorbed [OF assms(1-5) this assms(11) c(1)] obtain rdr' where
    a: "absorbs R2 view2 I rdr (sh_written s) rdr' ms (pongs (map snd (sh_log s)))"
      "paired synced (sh_writer s) rdr'" by blast
  from absorbsE [OF a(1) assms(12-15)] a(2) show ?thesis by metis
qed

text \<open>
  \<^bold>\<open>C4.\<close> So messages arrive whole although pongs may be written between their frames: when the
  user's task is done, no write has failed and the lock is free, the peer's reading loop delivers
  exactly these messages in this order, answers the pings of the reader task, and both sides are
  ready for the next one.
\<close>

theorem message_crosses_replies:
  assumes "connection R2 view2" "message_codec C I synced" "paired synced sdr rdr"
    and "compression_fits C synced sdr rdr" "\<forall>m\<in>set ms. sendable (sw_config sdr) m"
    and "shared_runs C (shared_start sdr ms) s" "sh_todo s = []" "sh_frames s = []" "sh_lock s = None"
    and "\<not> sh_broken s" "\<forall>x\<in>set (sh_log s). fst x = Reader_task \<longrightarrow> ping_pong (rs_config rdr) (snd x)"
    and "punctual (view2 w2)" "writable (view2 w2)" "listening (view2 w2)"
    and "incoming (view2 w2) = sh_written s @ rest"
  shows "\<exists>rdr' w2' out. polls R2 I (rdr, w2) (rdr', w2') \<and> paired synced (sh_writer s) rdr'
    \<and> carries (pongs (map snd (sh_log s))) out
    \<and> view2 w2' = (view2 w2)\<lparr>incoming := rest, delivered := delivered (view2 w2) @ map Inr ms,
          outgoing := outgoing (view2 w2) @ out\<rparr>"
  by (rule messages_cross [OF assms])

theorem message_crosses_replies_witness:
  "\<exists>rdr' w2'. polls sim_runtime stored_inflater (zip_reader, sim_peer (sh_written sim_shared @ [])) (rdr', w2')
     \<and> mailbox w2' = [Inr (message.Text [72, 105])]"
proof -
  have sync: "stored_synced (sw_encoder (plain_writer Server)) (rs_decoder zip_reader)"
    by (simp add: plain_writer_def zip_defs stored_synced_def)
  have p: "paired stored_synced (plain_writer Server) zip_reader" "compression_fits stored_deflater stored_synced (plain_writer Server) zip_reader"
    "\<forall>m\<in>set [message.Text [72, 105]]. sendable (sw_config (plain_writer Server)) m"
    using sync by (simp_all add: paired_def compression_fits_def plain_writer_def zip_defs sendable_def message_ok_def
        default_extensions_def valid_string_def is_scalar_def as_binary_def encode_utf8_def encode_char_def)
  have l: "\<forall>x\<in>set (sh_log sim_shared). fst x = Reader_task \<longrightarrow> ping_pong (rs_config zip_reader) (snd x)"
    by (simp add: sim_shared_def sim_interleaved_def sim_text_def sim_rest_def ping_pong_def new_frame_def zip_defs)
  have s: "sh_todo sim_shared = []" "sh_frames sim_shared = []" "sh_lock sim_shared = None" "\<not> sh_broken sim_shared"
    by (simp_all add: sim_shared_def sim_interleaved_def)
  have i: "incoming (sim_view (sim_peer (sh_written sim_shared @ []))) = sh_written sim_shared @ []" by simp
  from message_crosses_replies [OF sim.connection_axioms stored.message_codec_axioms p sim_shared s l
      sim_peer_view(2,4,6) i] show ?thesis by (auto simp: sim_view_def sim_peer_def)
qed

end
