(* ===== verification/Round_Trip.thy ===== *)
theory Round_Trip
  imports Shared
begin

text \<open>
  Both directions of a connection at once: a client whose messages are interleaved with pings and
  pongs, and a server whose user sends back what it receives while its reader task answers.
\<close>

section \<open>Replies to replies\<close>

lemma pongs_ping_pong:
  assumes "\<forall>fr\<in>set fs. is_control (opcode fr) \<longrightarrow> ping_pong config fr" "frame_limit config \<le> frame_limit config'"
  shows "\<forall>fr\<in>set (pongs fs). ping_pong config' fr"
  using assms by (force simp: pongs_def ping_pong_def new_frame_def)

lemma pongs_pongs: "\<forall>fr\<in>set fs. opcode fr \<noteq> op_code.Ping \<Longrightarrow> pongs fs = []"
  by (simp add: pongs_def filter_empty_conv)

lemma pongs_no_ping: "fr \<in> set (pongs fs) \<Longrightarrow> opcode fr = op_code.Pong"
  by (auto simp: pongs_def new_frame_def)

text \<open>The user's task is done, no write has failed, and nobody holds the lock.\<close>

definition all_sent :: "'c shared \<Rightarrow> bool" where
  "all_sent s \<longleftrightarrow> sh_todo s = [] \<and> sh_frames s = [] \<and> sh_lock s = None \<and> \<not> sh_broken s"

lemma prepared_data:
  assumes "message_codec C I synced" "synced (sw_encoder sdr) d" "0 < frame_limit (sw_config sdr)"
    and "\<forall>m\<in>set ms. sendable (sw_config sdr) m" "fr \<in> set (fst (prepared_all C ms sdr))"
  shows "\<not> is_control (opcode fr)"
  using assms(2-5)
proof (induction ms arbitrary: sdr d)
  case (Cons m ms)
  from message_codec.deflated_inflated [OF assms(1) Cons.prems(1), of "as_binary m"] obtain z data enc dec where
    d: "deflated C sdr (as_binary m) z data enc" "synced enc dec" by blast
  from prepared_deflated [OF d(1) Cons.prems(2)] Cons.prems(3) obtain frs where
    f: "prepared C m (sdr, ()) = (Returns (Inr frs), (sdr\<lparr>sw_encoder := enc\<rparr>, ()))"
      "message_wire frs = message_frames z (message_opcode m) (pieces (frame_limit (sw_config sdr)) data)"
    by (auto simp: sendable_def)
  then have "fr \<in> set (message_frames z (message_opcode m) (pieces (frame_limit (sw_config sdr)) data))
      \<or> fr \<in> set (fst (prepared_all C ms (sdr\<lparr>sw_encoder := enc\<rparr>)))"
    using Cons.prems(4) by (auto split: prod.splits)
  then show ?case
    using message_data Cons.IH [of "sdr\<lparr>sw_encoder := enc\<rparr>" dec] d(2) Cons.prems(2,3) by auto
qed simp

text \<open>The control frames on the socket are the replies of the reader task.\<close>

lemma log_control:
  assumes "message_codec C I synced" "paired synced sdr rdr" "\<forall>m\<in>set ms. sendable (sw_config sdr) m"
    and "shared_runs C (shared_start sdr ms) s" "all_sent s" "x \<in> set (sh_log s)" "is_control (opcode (snd x))"
  shows "fst x = Reader_task"
proof (rule ccontr)
  assume "fst x \<noteq> Reader_task"
  then have "fst x = Sending_user" by (cases "fst x") simp_all
  with assms(6) have "snd x \<in> set (written_by Sending_user s)" by (force simp: written_by_def)
  moreover have "written_by Sending_user s = fst (prepared_all C ms sdr)"
    using shared_from_start [OF assms(4)] assms(5)
    by (simp add: shared_inv_def whole_def all_sent_def)
  ultimately show False
    using prepared_data [OF assms(1) _ _ assms(3)] assms(2,7) by (auto simp: paired_def)
qed

section \<open>Property\<close>


text \<open>"Hi" in two frames with a ping between them, and back with the pong between them.\<close>

definition sim_asked :: "(nat \<times> bytes) shared" where
  "sim_asked = sim_interleaved Client (Some [1, 2, 3, 4]) (new_frame True op_code.Ping [9] False)"


end
