(* ===== verification/Http_Text.thy ===== *)
theory Http_Text
  imports Rstring
begin

text \<open>
  The operations of \<open>str\<close> that the handshake needs: \<open>split_once\<close>, \<open>lines\<close>,
  \<open>split_whitespace\<close>, \<open>contains\<close>, \<open>replace\<close> and \<open>usize::from_str\<close>, with the facts about text
  that is built from lines.
\<close>

section \<open>split_once, contains and replace\<close>

text \<open>The text before and after the first occurrence of \<open>p\<close>.\<close>

fun split_once :: "rstring \<Rightarrow> rstring \<Rightarrow> (rstring \<times> rstring) option" where
  "split_once p [] = (if p = [] then Some ([], []) else None)"
| "split_once p (c # s) =
     (if prefix p (c # s) then Some ([], drop (length p) (c # s))
      else map_option (\<lambda>(a, b). (c # a, b)) (split_once p s))"

lemma split_once_SomeD: "split_once p s = Some (a, b) \<Longrightarrow> s = a @ p @ b"
proof (induction s arbitrary: a)
  case Nil
  then show ?case by (simp split: if_splits)
next
  case (Cons c s)
  show ?case
  proof (cases "prefix p (c # s)")
    case True
    with Cons.prems have "a = []" "b = drop (length p) (c # s)" by simp_all
    with True show ?thesis by (auto elim: prefixE)
  next
    case False
    with Cons show ?thesis by auto
  qed
qed

lemma split_once_here: "split_once p (p @ b) = Some ([], b)"
proof (cases "p @ b")
  case (Cons c s)
  then have "prefix p (c # s)" "drop (length p) (c # s) = b"
    by (metis prefixI, metis append_eq_conv_conj)
  with Cons show ?thesis by simp
qed simp

text \<open>A stretch of text without the pattern's first character is skipped.\<close>

lemma split_once_skip:
  "d \<notin> set a \<Longrightarrow> split_once (d # p) (a @ s) = map_option (\<lambda>(x, y). (a @ x, y)) (split_once (d # p) s)"
proof (induction a)
  case Nil
  then show ?case by (cases "split_once (d # p) s") simp_all
next
  case (Cons c a)
  then show ?case by (cases "split_once (d # p) s") auto
qed

lemma split_once_at: "d \<notin> set a \<Longrightarrow> split_once (d # p) (a @ d # p @ b) = Some (a, b)"
  using split_once_skip [of d a p "d # p @ b"] split_once_here [of "d # p" b] by simp

definition contains :: "rstring \<Rightarrow> rstring \<Rightarrow> bool" where
  "contains s p \<longleftrightarrow> sublist p s"

lemma contains_self [simp]: "contains s s"
  by (simp add: contains_def)

text \<open>Occurrences are replaced from the left; an empty pattern matches between all characters.\<close>

function replace_all :: "rstring \<Rightarrow> rstring \<Rightarrow> rstring \<Rightarrow> rstring" where
  "replace_all p q s =
     (if p = [] then q @ concat (map (\<lambda>c. c # q) s)
      else case split_once p s of
             None \<Rightarrow> s
           | Some (a, b) \<Rightarrow> a @ q @ replace_all p q b)"
  by pat_completeness auto
termination
  by (relation "measure (\<lambda>(p, q, s). length s)") (auto dest!: split_once_SomeD)

declare replace_all.simps [simp del]

section \<open>Lines and words\<close>

fun split_inclusive :: "rchar \<Rightarrow> rstring \<Rightarrow> rstring list" where
  "split_inclusive d [] = []"
| "split_inclusive d (c # s) =
     (if c = d then [c] # split_inclusive d s
      else case split_inclusive d s of p # ps \<Rightarrow> (c # p) # ps | [] \<Rightarrow> [[c]])"

text \<open>A line loses its \<open>\n\<close>, and then a \<open>\r\<close> before it; text after the last \<open>\n\<close> is kept.\<close>

definition strip_eol :: "rstring \<Rightarrow> rstring" where
  "strip_eol l =
     (if suffix [13, 10] l then take (length l - 2) l
      else if suffix [10] l then take (length l - 1) l else l)"

definition lines :: "rstring \<Rightarrow> rstring list" where
  "lines s = map strip_eol (split_inclusive 10 s)"

fun split_where :: "(rchar \<Rightarrow> bool) \<Rightarrow> rstring \<Rightarrow> rstring list" where
  "split_where P [] = [[]]"
| "split_where P (c # s) =
     (if P c then [] # split_where P s
      else case split_where P s of p # ps \<Rightarrow> (c # p) # ps | [] \<Rightarrow> [[c]])"

definition split_whitespace :: "rstring \<Rightarrow> rstring list" where
  "split_whitespace s = filter (\<lambda>w. w \<noteq> []) (split_where is_whitespace s)"

abbreviation crlf :: rstring where
  "crlf \<equiv> [13, 10]"

lemma split_inclusive_none: "d \<notin> set l \<Longrightarrow> split_inclusive d l = (if l = [] then [] else [l])"
  by (induction l) auto

lemma split_inclusive_at:
  "d \<notin> set l \<Longrightarrow> split_inclusive d (l @ d # s) = (l @ [d]) # split_inclusive d s"
  by (induction l) auto

lemma lines_Nil [simp]: "lines [] = []"
  by (simp add: lines_def)

lemma lines_last: "10 \<notin> set l \<Longrightarrow> l \<noteq> [] \<Longrightarrow> lines l = [l]"
  by (auto simp: lines_def split_inclusive_none strip_eol_def suffix_def)

lemma strip_eol_crlf [simp]: "strip_eol (l @ crlf) = l"
  by (simp add: strip_eol_def suffix_def)

lemma lines_crlf: "10 \<notin> set l \<Longrightarrow> lines (l @ 13 # 10 # s) = l # lines s"
  using split_inclusive_at [of 10 "l @ [13]" s] by (simp add: lines_def)

lemma split_where_none: "\<forall>c\<in>set a. \<not> P c \<Longrightarrow> split_where P a = [a]"
  by (induction a) auto

lemma split_where_at:
  "\<forall>c\<in>set a. \<not> P c \<Longrightarrow> P d \<Longrightarrow> split_where P (a @ d # s) = a # split_where P s"
  by (induction a) auto

definition is_word :: "rstring \<Rightarrow> bool" where
  "is_word a \<longleftrightarrow> a \<noteq> [] \<and> (\<forall>c\<in>set a. \<not> is_whitespace c)"

lemma split_whitespace_word: "is_word a \<Longrightarrow> split_whitespace a = [a]"
  by (simp add: split_whitespace_def is_word_def split_where_none)

lemma split_whitespace_Cons:
  "is_word a \<Longrightarrow> split_whitespace (a @ 32 # s) = a # split_whitespace s"
  by (simp add: split_whitespace_def is_word_def split_where_at is_whitespace_def)

lemma trim_word [simp]: "is_word a \<Longrightarrow> trim a = a"
  by (rule trim_id) (simp_all add: is_word_def)

section \<open>usize::from_str\<close>

definition parse_usize :: "rstring \<Rightarrow> nat option" where
  "parse_usize s =
     (let d = strip_plus s in
      if d \<noteq> [] \<and> list_all is_digit d \<and> decimal_value d < 2 ^ 64
      then Some (decimal_value d) else None)"

section \<open>Text made of lines\<close>

text \<open>
  A header section: lines without line ends, none of them empty, each closed by \<open>\r\n\<close>, and
  an empty line at the end. Splitting at the first blank line gives the lines back.
\<close>

definition is_line :: "rstring \<Rightarrow> bool" where
  "is_line l \<longleftrightarrow> l \<noteq> [] \<and> 13 \<notin> set l \<and> 10 \<notin> set l"

definition joined :: "rstring list \<Rightarrow> rstring" where
  "joined ls = concat (map (\<lambda>l. l @ crlf) ls)"

lemma joined_simps [simp]: "joined [] = []" "joined (l # ls) = l @ crlf @ joined ls"
  by (simp_all add: joined_def)

definition blank_line :: rstring where
  "blank_line = [13, 10, 13, 10]"

lemma split_blank_line_step:
  assumes "13 \<notin> set l"
  shows "split_once blank_line (l @ 13 # 10 # s)
       = (if prefix crlf s then Some (l, drop 2 s)
          else map_option (\<lambda>(a, b). (l @ 13 # 10 # a, b)) (split_once blank_line s))"
proof -
  have "split_once blank_line (13 # 10 # s)
      = (if prefix crlf s then Some ([], drop 2 s)
         else map_option (\<lambda>(a, b). (13 # 10 # a, b)) (split_once blank_line s))"
    by (cases "split_once blank_line s") (auto simp: blank_line_def numeral_2_eq_2)
  with split_once_skip [of 13 l "[10, 13, 10]" "13 # 10 # s"] assms show ?thesis
    by (cases "split_once blank_line s") (auto simp: blank_line_def)
qed

lemma is_lineD:
  "is_line l \<Longrightarrow> l \<noteq> []" "is_line l \<Longrightarrow> 13 \<notin> set l" "is_line l \<Longrightarrow> 10 \<notin> set l"
  by (simp_all add: is_line_def)

text \<open>The lines before the blank line, without the last line end.\<close>

fun header_part :: "rstring list \<Rightarrow> rstring" where
  "header_part [] = []"
| "header_part [l] = l"
| "header_part (l # l' # ls) = l @ crlf @ header_part (l' # ls)"

lemma split_header_section:
  assumes "list_all is_line ls" "ls \<noteq> []"
  shows "split_once blank_line (joined ls @ crlf @ s) = Some (header_part ls, s)"
  using assms
proof (induction ls rule: header_part.induct)
  case (2 l)
  then show ?case by (simp add: split_blank_line_step is_lineD)
next
  case (3 l l' ls)
  then have "\<not> prefix crlf (l' @ t)" for t
    by (cases l') (auto simp: is_line_def)
  with 3 show ?case by (simp add: split_blank_line_step is_lineD)
qed simp

lemma lines_header_part: "list_all is_line ls \<Longrightarrow> lines (header_part ls) = ls"
  by (induction ls rule: header_part.induct) (simp_all add: lines_last lines_crlf is_lineD)

end
