(* ===== verification/Request.thy ===== *)
theory Request
  imports Runtime Http_Text
begin

text \<open>
  \<open>src/request.rs\<close>: the handshake request a client builds from its URL, and the parser that
  reads a request (or a response, which it treats alike) off the socket under a deadline.
  The \<open>url\<close> crate, the line reader of tokio and the Unicode lower-casing tables are
  parameters with their documented behaviour as locales.
\<close>

section \<open>URLs and the client's request\<close>

text \<open>What the code reads off a parsed \<open>Url\<close>; the port is absent when it is the scheme's own.\<close>

record url =
  url_scheme :: rstring
  url_host :: "rstring option"
  url_port :: "nat option"
  url_path :: rstring
  url_query :: "rstring option"

definition construct_http_request ::
  "(rstring \<Rightarrow> parse_error + url) \<Rightarrow> rstring \<Rightarrow> rstring \<Rightarrow> extensions option
     \<Rightarrow> error + rstring \<times> rstring \<times> rstring \<times> bool" where
  "construct_http_request url_parse ws_url key exts =
     (case url_parse ws_url of
        Inl e \<Rightarrow> Inl (URLParseError e)
      | Inr u \<Rightarrow>
          (case (if url_scheme u = lit ''ws'' then Some (80, False)
                 else if url_scheme u = lit ''wss'' then Some (443, True) else None) of
             None \<Rightarrow> Inl InvalidSchemeURL
           | Some (http_port, use_tls) \<Rightarrow>
               (case url_host u of
                  None \<Rightarrow> Inl URLNoHost
                | Some host \<Rightarrow>
                    let port = unwrap_or http_port (url_port u);
                        request_host_field = (case url_port u of
                            Some p \<Rightarrow> host @ lit '':'' @ show_nat p | None \<Rightarrow> host);
                        host_with_port = host @ lit '':'' @ show_nat port;
                        request_path = (case url_query u of
                            Some q \<Rightarrow> url_path u @ lit ''?'' @ q | None \<Rightarrow> url_path u);
                        request = lit ''GET '' @ request_path @ lit '' HTTP/1.1'' @ crlf
                          @ lit ''Host: '' @ request_host_field @ crlf
                          @ lit ''Connection: Upgrade'' @ crlf
                          @ lit ''Upgrade: websocket'' @ crlf
                          @ lit ''Sec-WebSocket-Key: '' @ key @ crlf
                          @ lit ''Sec-WebSocket-Version: 13'' @ crlf
                    in Inr (add_extension_headers request exts, host_with_port, host, use_tls))))"

section \<open>Reading the head of a request\<close>

text \<open>
  \<open>timeout(d, ...)\<close> around the loop: \<open>start_deadline\<close> arms the timer, and every \<open>read_line\<close>
  inside either completes or gives way to \<open>Elapsed\<close>. A completed \<open>read_line\<close> has its
  result, the number of bytes or an I/O error, and the buffer it leaves behind.
\<close>

record 'w line_io =
  start_deadline :: "nat \<Rightarrow> 'w \<Rightarrow> 'w"
  read_line :: "rstring \<Rightarrow> ('w, elapsed, (io_error + nat) \<times> rstring) async"
  flush :: "('w, io_error, unit) async"

partial_function (option) read_head ::
  "'w line_io \<Rightarrow> rstring \<Rightarrow> 'w \<Rightarrow> ((elapsed + rstring) outcome \<times> 'w) option" where
  "read_head H buffer w =
     (case read_line H buffer w of
        (Returns (Inr (Inr bytes_read, buffer')), w') \<Rightarrow>
          if bytes_read = 0 \<or> ends_with blank_line buffer'
          then Some (Returns (Inr buffer'), w') else read_head H buffer' w'
      | (Returns (Inr (Inl e, buffer')), w') \<Rightarrow> Some (Returns (Inr buffer'), w')
      | (Returns (Inl e), w') \<Rightarrow> Some (Returns (Inl e), w')
      | (Hangs, w') \<Rightarrow> Some (Hangs, w')
      | (Panics, w') \<Rightarrow> Some (Panics, w'))"

declare read_head.simps [code]

definition timed_read_head :: "'w line_io \<Rightarrow> nat \<Rightarrow> ('w, elapsed, rstring) async" where
  "timed_read_head H secs w = or_hang (read_head H []) (start_deadline H secs w)"

section \<open>Parsing it\<close>

record http_request =
  hr_method :: rstring
  hr_uri :: rstring
  hr_version :: rstring
  hr_headers :: "rstring \<Rightarrow> rstring option"
  hr_body :: bytes

definition insert_header ::
  "(rstring \<Rightarrow> rstring) \<Rightarrow> (rstring \<Rightarrow> rstring option) \<Rightarrow> rstring \<Rightarrow> (rstring \<Rightarrow> rstring option)" where
  "insert_header lower headers line =
     (case split_once (lit '': '') line of
        Some (key, value) \<Rightarrow> headers(lower key \<mapsto> trim value)
      | None \<Rightarrow> headers)"

text \<open>The body is still the text after the blank line here.\<close>

definition parse_head :: "(rstring \<Rightarrow> rstring) \<Rightarrow> rstring \<Rightarrow> error + http_request" where
  "parse_head lower buffer =
     (case split_once blank_line buffer of
        None \<Rightarrow> Inl HttpParseError
      | Some (header, body) \<Rightarrow>
          (case lines header of
             [] \<Rightarrow> Inl InvalidHTTPRequestLine
           | request_line # ls \<Rightarrow>
               (case split_whitespace request_line of
                  [] \<Rightarrow> Inl MissingHTTPMethod
                | [m] \<Rightarrow> Inl MissingHTTPUri
                | [m, u] \<Rightarrow> Inl MissingHTTPVersion
                | m # u # v # _ \<Rightarrow>
                    Inr \<lparr>hr_method = m, hr_uri = u, hr_version = v,
                         hr_headers = foldl (insert_header lower) Map.empty ls,
                         hr_body = encode_utf8 body\<rparr>)))"

text \<open>\<open>vec![0; n]\<close> panics when \<open>n\<close> exceeds \<open>isize::MAX\<close>.\<close>

definition parse_http_request ::
  "'w runtime \<Rightarrow> 'w line_io \<Rightarrow> (rstring \<Rightarrow> rstring) \<Rightarrow> ('w, error, http_request) async" where
  "parse_http_request R H lower =
     await (map_err Timeout (timed_read_head H 5)) (\<lambda>buffer.
     await (of_result (parse_head lower buffer)) (\<lambda>req.
     case hr_headers req (lit ''Content-Length'') of
       Some content_length \<Rightarrow>
         (case parse_usize content_length of
            None \<Rightarrow> err InvalidContentLength
          | Some n \<Rightarrow>
              if 2 ^ 63 \<le> n then panic
              else await (map_err IOError (read_exact R n)) (\<lambda>bs. ok (req\<lparr>hr_body := bs\<rparr>)))
     | None \<Rightarrow> ok req))"

definition get_header_value :: "http_request \<Rightarrow> rstring \<Rightarrow> rstring option" where
  "get_header_value req key = hr_headers req key"

section \<open>What the parser relies on\<close>

text \<open>
  The line reader: under the deadline every \<open>read_line\<close> completes; what it adds to the buffer
  is the text it took off the stream; a line that has arrived is returned with its line end.
\<close>

locale line_source = byte_source R view + byte_sink R view
  for R :: "'w runtime" and view :: "'w \<Rightarrow> link" +
  fixes H :: "'w line_io"
  assumes deadline_view: "view (start_deadline H secs w) = view w"
    and read_line_completes: "\<exists>r. fst (read_line H buffer w) = Returns r"
    and read_line_ok:
      "punctual (view w) \<Longrightarrow> incoming (view w) = encode_utf8 (l @ [10]) @ rest \<Longrightarrow>
       valid_string l \<Longrightarrow> 10 \<notin> set l \<Longrightarrow>
         fst (read_line H buffer w)
           = Returns (Inr (Inr (length (encode_utf8 (l @ [10]))), buffer @ l @ [10]))"
    and read_line_sound:
      "fst (read_line H buffer w) = Returns (Inr (Inr n, buffer')) \<Longrightarrow>
         \<exists>s. buffer' = buffer @ s \<and> n = length (encode_utf8 s)
           \<and> incoming (view w) = encode_utf8 s @ incoming (view (snd (read_line H buffer w)))"
    and read_line_punctual: "punctual (view w) \<Longrightarrow> punctual (view (snd (read_line H buffer w)))"
    and read_line_frame: "only_input (view w) (view (snd (read_line H buffer w)))"
    and flush_ok: "writable (view w) \<Longrightarrow> fst (flush H w) = Returns (Inr ())"
    and flush_view: "writable (view w) \<Longrightarrow> view (snd (flush H w)) = view w"
    and flush_frame: "only_output (view w) (view (snd (flush H w)))"
begin

lemma read_line_view:
  assumes "punctual (view w)" "incoming (view w) = encode_utf8 (l @ [10]) @ rest"
    and "valid_string l" "10 \<notin> set l"
  obtains w' where "read_line H buffer w
      = (Returns (Inr (Inr (length (encode_utf8 (l @ [10]))), buffer @ l @ [10])), w')"
    "view w' = (view w)\<lparr>incoming := rest\<rparr>"
proof
  let ?w = "snd (read_line H buffer w)"
  note l = read_line_ok [OF assms, of buffer]
  then show "read_line H buffer w
      = (Returns (Inr (Inr (length (encode_utf8 (l @ [10]))), buffer @ l @ [10])), ?w)"
    by (metis prod.collapse)
  from read_line_sound [OF l] assms(2) have "incoming (view ?w) = rest" by auto
  with read_line_frame [of w buffer] read_line_punctual [OF assms(1), of buffer] assms(1)
  show "view ?w = (view w)\<lparr>incoming := rest\<rparr>"
    by (intro link_eqI) (simp_all add: only_input_def)
qed

text \<open>Lines that end with an empty one are read to the end of the empty line and no further.\<close>

lemma suffix_blank_line: "l \<noteq> [] \<Longrightarrow> 10 \<notin> set l \<Longrightarrow> \<not> ends_with blank_line (buffer @ l @ crlf)"
proof
  assume l: "l \<noteq> []" "10 \<notin> set l" and "ends_with blank_line (buffer @ l @ crlf)"
  then obtain u where "buffer @ l @ crlf = u @ [13, 10] @ crlf"
    by (auto simp: ends_with_def blank_line_def suffix_def)
  then have "buffer @ l = u @ [13, 10]" by simp
  with l(1) have "last l = 10" by (metis last_appendR last.simps list.distinct(1))
  with l show False by (metis last_in_set)
qed

lemma valid_crlf [simp]: "valid_string crlf"
  by (simp add: is_scalar_def)

lemma read_head_lines:
  assumes "punctual (view w)" "incoming (view w) = encode_utf8 (joined ls @ crlf) @ rest"
    and "list_all is_line ls" "valid_string (joined ls)" "ls = [] \<Longrightarrow> suffix crlf buffer"
  shows "\<exists>w'. read_head H buffer w = Some (Returns (Inr (buffer @ joined ls @ crlf)), w')
      \<and> view w' = (view w)\<lparr>incoming := rest\<rparr>"
  using assms
proof (induction ls arbitrary: buffer w)
  case Nil
  from read_line_view [of w "[13]" rest buffer] Nil.prems obtain w' where
    "read_line H buffer w = (Returns (Inr (Inr (length (encode_utf8 crlf)), buffer @ crlf)), w')"
    "view w' = (view w)\<lparr>incoming := rest\<rparr>" by (auto simp: is_scalar_def)
  moreover have "ends_with blank_line (buffer @ crlf)"
    using Nil.prems(5) by (auto simp: ends_with_def blank_line_def suffix_def)
  ultimately show ?case by (simp add: read_head.simps [of H buffer])
next
  case (Cons l ls)
  then have l: "is_line l" "valid_string l" by simp_all
  have "incoming (view w) = encode_utf8 ((l @ [13]) @ [10]) @ encode_utf8 (joined ls @ crlf) @ rest"
    using Cons.prems(2) by simp
  from read_line_view [OF Cons.prems(1) this, of buffer] l obtain w1 where w1:
    "read_line H buffer w
       = (Returns (Inr (Inr (length (encode_utf8 (l @ crlf))), buffer @ l @ crlf)), w1)"
    "view w1 = (view w)\<lparr>incoming := encode_utf8 (joined ls @ crlf) @ rest\<rparr>"
    by (auto simp: is_scalar_def is_line_def)
  from Cons.IH [of w1 "buffer @ l @ crlf"] w1(2) Cons.prems obtain w' where w':
    "read_head H (buffer @ l @ crlf) w1 = Some (Returns (Inr (buffer @ (l @ crlf) @ joined ls @ crlf)), w')"
    "view w' = (view w)\<lparr>incoming := rest\<rparr>"
    by (auto simp: suffix_def)
  have "encode_utf8 (l @ crlf) \<noteq> []" by simp
  with w1(1) w' suffix_blank_line [of l buffer] l(1) show ?case
    by (simp add: read_head.simps [of H buffer] is_line_def)
qed

text \<open>On any input: the loop ends, since a round that goes on has taken bytes off the stream.\<close>

lemma read_head_returns: "\<exists>r w'. read_head H buffer w = Some (Returns r, w')"
proof (induction "length (incoming (view w))" arbitrary: buffer w rule: less_induct)
  case less
  obtain r w1 where r: "read_line H buffer w = (Returns r, w1)"
    using read_line_completes [of buffer w] by (metis prod.collapse)
  show ?case
  proof (cases "\<exists>n buffer'. r = Inr (Inr n, buffer') \<and> n \<noteq> 0 \<and> \<not> ends_with blank_line buffer'")
    case True
    then obtain n buffer' where n: "r = Inr (Inr n, buffer')" "n \<noteq> 0"
      "\<not> ends_with blank_line buffer'" by blast
    with read_line_sound [of buffer w n buffer'] r
    have "length (incoming (view w1)) < length (incoming (view w))" by auto
    from less [OF this, of buffer'] n r show ?thesis by (simp add: read_head.simps [of H buffer])
  next
    case False
    with r show ?thesis
      by (cases r) (auto simp: read_head.simps [of H buffer] split: sum.split)
  qed
qed

lemma read_head_frame: "read_head H buffer w = Some (r, w') \<Longrightarrow> only_input (view w) (view w')"
proof (induction "length (incoming (view w))" arbitrary: buffer w rule: less_induct)
  case less
  obtain r1 w1 where r1: "read_line H buffer w = (Returns r1, w1)"
    using read_line_completes [of buffer w] by (metis prod.collapse)
  have f: "only_input (view w) (view w1)"
    using read_line_frame [of w buffer] r1 by simp
  show ?case
  proof (cases "\<exists>n buffer'. r1 = Inr (Inr n, buffer') \<and> n \<noteq> 0 \<and> \<not> ends_with blank_line buffer'")
    case True
    then obtain n buffer' where n: "r1 = Inr (Inr n, buffer')" "n \<noteq> 0"
      "\<not> ends_with blank_line buffer'" by blast
    with read_line_sound [of buffer w n buffer'] r1
    have "length (incoming (view w1)) < length (incoming (view w))" by auto
    from less.hyps [OF this, of buffer'] less.prems n r1 f show ?thesis
      by (auto simp: read_head.simps [of H buffer] intro: only_input_trans)
  next
    case False
    with r1 f less.prems show ?thesis
      by (cases r1) (auto simp: read_head.simps [of H buffer] split: sum.splits if_splits)
  qed
qed

lemma timed_read_head_frame: "only_input (view w) (view (snd (timed_read_head H secs w)))"
  using read_head_frame [of "[]" "start_deadline H secs w"]
    read_head_returns [of "[]" "start_deadline H secs w"]
  by (auto simp: timed_read_head_def or_hang_def deadline_view)

lemma timed_read_head_returns: "\<exists>r. fst (timed_read_head H secs w) = Returns r"
  using read_head_returns [of "[]" "start_deadline H secs w"]
  by (auto simp: timed_read_head_def or_hang_def)

lemma timed_read_head_lines:
  assumes "punctual (view w)" "incoming (view w) = encode_utf8 (joined ls @ crlf) @ rest"
    and "list_all is_line ls" "valid_string (joined ls)" "ls \<noteq> []"
  obtains w' where "timed_read_head H secs w = (Returns (Inr (joined ls @ crlf)), w')"
    "view w' = (view w)\<lparr>incoming := rest\<rparr>"
  using read_head_lines [of "start_deadline H secs w" ls rest "[]"] assms
  by (auto simp: timed_read_head_def or_hang_def deadline_view)

end

text \<open>
  Lower-casing: on ASCII it is the ASCII mapping, and its result never contains an ASCII
  capital.
\<close>

definition ascii_lower :: "rchar \<Rightarrow> rchar" where
  "ascii_lower c = (if 65 \<le> c \<and> c \<le> 90 then c + 32 else c)"

locale lowercase =
  fixes lower :: "rstring \<Rightarrow> rstring"
  assumes lower_ascii: "list_all (\<lambda>c. c < 128) s \<Longrightarrow> lower s = map ascii_lower s"
    and lower_no_capital: "c \<in> set (lower s) \<Longrightarrow> \<not> (65 \<le> c \<and> c \<le> 90)"
begin

lemma content_length_missing: "lower s \<noteq> lit ''Content-Length''"
  using lower_no_capital [of 67 s] by (auto dest!: arg_cong [where f = set])

end

interpretation ascii: lowercase "map ascii_lower"
  by unfold_locales (auto simp: ascii_lower_def)

section \<open>The simulated line reader\<close>

text \<open>\<open>sim_take k w\<close>: a read that takes the next \<open>k\<close> bytes and waits until they have arrived.\<close>

definition sim_take :: "nat \<Rightarrow> sim \<Rightarrow> sim" where
  "sim_take k w = w\<lparr>arrivals := drop k (arrivals w),
     clock := arrival_time (clock w) (take k (arrivals w))\<rparr>"

definition sim_line_length :: "bytes \<Rightarrow> nat" where
  "sim_line_length bs = length (takeWhile (\<lambda>b. b \<noteq> 10) bs)"

definition sim_read_line :: "rstring \<Rightarrow> (sim, elapsed, (io_error + nat) \<times> rstring) async" where
  "sim_read_line buffer w =
     (let bs = map snd (arrivals w);
          k = Suc (sim_line_length bs);
          limit = max (clock w) (deadline w)
      in if (k \<le> length bs \<or> stream_end w = EndOfStream)
            \<and> arrival_time (clock w) (take k (arrivals w)) \<le> limit
         then case decode_utf8 (take k bs) of
                Some s \<Rightarrow> (Returns (Inr (Inr (length (take k bs)), buffer @ s)), sim_take k w)
              | None \<Rightarrow> (Returns (Inr (Inl InvalidData, buffer)), sim_take k w)
         else (Returns (Inl Elapsed), w\<lparr>clock := limit\<rparr>))"

definition sim_line_io :: "sim line_io" where
  "sim_line_io =
     \<lparr>start_deadline = (\<lambda>secs w. w\<lparr>deadline := clock w + 1000 * secs\<rparr>),
      read_line = sim_read_line, flush = (\<lambda>w. (Returns (Inr ()), w))\<rparr>"

lemmas sim_line_defs = sim_line_io_def sim_read_line_def sim_take_def Let_def

lemma sim_line_length_at:
  "10 \<notin> set bs \<Longrightarrow> sim_line_length (bs @ 10 # r) = length bs"
  by (induction bs) (simp_all add: sim_line_length_def)

lemma sim_read_line_ok:
  assumes "punctual (sim_view w)" "incoming (sim_view w) = encode_utf8 (l @ [10]) @ rest"
    and "valid_string l" "10 \<notin> set l"
  shows "fst (sim_read_line buffer w)
      = Returns (Inr (Inr (length (encode_utf8 (l @ [10]))), buffer @ l @ [10]))"
proof -
  let ?bs = "map snd (arrivals w)"
  have lf: "encode_char 10 = [10]" by (simp add: encode_char_def byte_def)
  have bs: "?bs = encode_utf8 l @ 10 # rest"
    using assms(2) lf by (simp add: sim_view_def)
  have k: "sim_line_length ?bs = length (encode_utf8 l)"
    unfolding bs by (rule sim_line_length_at [OF encode_no_lf [OF assms(3,4)]])
  have t: "take (Suc (length (encode_utf8 l))) ?bs = encode_utf8 (l @ [10])"
    unfolding bs by (simp add: lf)
  have "valid_string (l @ [10])" using assms(3) by (simp add: is_scalar_def)
  note d = decode_encode_utf8 [OF this]
  have "length ?bs = length (encode_utf8 l @ 10 # rest)" by (simp only: bs)
  then have n: "Suc (length (encode_utf8 l)) \<le> length (arrivals w)" by simp
  have a: "arrival_time (clock w) (take (Suc (length (encode_utf8 l))) (arrivals w)) = clock w"
    using assms(1) by (intro arrival_time_zero list_all_take) (simp add: sim_view_def)
  show ?thesis
    unfolding sim_read_line_def Let_def k t d using n a by (simp add: lf)
qed

lemma sim_take_view: "only_input (sim_view w) (sim_view (sim_take k w))"
  "punctual (sim_view w) \<Longrightarrow> punctual (sim_view (sim_take k w))"
  "incoming (sim_view (sim_take k w)) = drop k (map snd (arrivals w))"
  by (simp_all add: sim_view_def sim_take_def only_input_def list_all_drop drop_map)

interpretation sim_lines: line_source sim_runtime sim_view sim_line_io
proof unfold_locales
  fix w :: sim and l rest buffer
  assume "punctual (sim_view w)" "incoming (sim_view w) = encode_utf8 (l @ [10]) @ rest"
    "valid_string l" "10 \<notin> set l"
  then show "fst (read_line sim_line_io buffer w)
      = Returns (Inr (Inr (length (encode_utf8 (l @ [10]))), buffer @ l @ [10]))"
    unfolding sim_line_io_def by (simp only: line_io.simps) (rule sim_read_line_ok)
next
  fix w :: sim and buffer
  show "\<exists>r. fst (read_line sim_line_io buffer w) = Returns r"
    by (simp add: sim_line_io_def sim_read_line_def Let_def split: option.split)
  show "only_input (sim_view w) (sim_view (snd (read_line sim_line_io buffer w)))"
    by (simp add: sim_line_io_def sim_read_line_def Let_def sim_take_view split: option.split)
       (simp add: only_input_def sim_view_def)
  assume "punctual (sim_view w)"
  then show "punctual (sim_view (snd (read_line sim_line_io buffer w)))"
    by (simp add: sim_line_io_def sim_read_line_def Let_def sim_take_view split: option.split)
       (simp add: sim_view_def)
next
  fix w :: sim and buffer n buffer'
  assume "fst (read_line sim_line_io buffer w) = Returns (Inr (Inr n, buffer'))"
  then show "\<exists>s. buffer' = buffer @ s \<and> n = length (encode_utf8 s) \<and> incoming (sim_view w)
      = encode_utf8 s @ incoming (sim_view (snd (read_line sim_line_io buffer w)))"
    by (auto simp: sim_line_io_def sim_read_line_def Let_def sim_view_def sim_take_def drop_map [symmetric]
        dest!: decode_utf8_sound split: option.splits if_splits)
qed (simp_all add: sim_line_io_def sim_view_def only_output_def)

section \<open>A written head parses back\<close>

definition header_line :: "rstring \<times> rstring \<Rightarrow> rstring" where
  "header_line h = fst h @ lit '': '' @ snd h"

text \<open>A header that fits on its line: a name without a colon, a value without outer white space.\<close>

definition header_ok :: "rstring \<times> rstring \<Rightarrow> bool" where
  "header_ok h \<longleftrightarrow>
     58 \<notin> set (fst h) \<and> trim (snd h) = snd h \<and> is_line (header_line h) \<and> valid_string (header_line h)"

text \<open>A later header with the same name, up to case, replaces an earlier one.\<close>

definition headers_of ::
  "(rstring \<Rightarrow> rstring) \<Rightarrow> (rstring \<times> rstring) list \<Rightarrow> rstring \<Rightarrow> rstring option" where
  "headers_of lower hs = map_of (rev (map (apfst lower) hs))"

definition http_head :: "rstring \<Rightarrow> (rstring \<times> rstring) list \<Rightarrow> rstring" where
  "http_head request_line hs = joined (request_line # map header_line hs) @ crlf"

lemma insert_header_line:
  "header_ok h \<Longrightarrow> insert_header lower m (header_line h) = m(lower (fst h) \<mapsto> snd h)"
  using split_once_at [of 58 "fst h" "[32]" "snd h"]
  by (cases h) (simp add: insert_header_def header_line_def header_ok_def)

lemma insert_header_lines:
  "list_all header_ok hs \<Longrightarrow>
     foldl (insert_header lower) m (map header_line hs) = m ++ headers_of lower hs"
  by (induction hs arbitrary: m) (simp_all add: insert_header_line headers_of_def apfst_def map_prod_def
      split: prod.split)

lemma parse_head_http_head:
  assumes "is_line request_line" "split_whitespace request_line = m # u # v # ws"
    and "list_all header_ok hs"
  shows "parse_head lower (http_head request_line hs @ s)
       = Inr \<lparr>hr_method = m, hr_uri = u, hr_version = v, hr_headers = headers_of lower hs,
              hr_body = encode_utf8 s\<rparr>"
proof -
  let ?ls = "request_line # map header_line hs"
  have ls: "list_all is_line ?ls"
    using assms(1,3) by (auto simp: list_all_iff header_ok_def)
  from split_header_section [OF ls, of s]
  have "split_once blank_line (http_head request_line hs @ s) = Some (header_part ?ls, s)"
    by (simp add: http_head_def)
  with assms lines_header_part [OF ls] insert_header_lines [OF assms(3), of lower Map.empty] show ?thesis
    by (simp add: parse_head_def)
qed

text \<open>
  Header names are stored in lower case, so the look-up of \<open>Content-Length\<close> finds nothing and
  the body is never read.
\<close>

context lowercase
begin

lemma insert_headers_content_length:
  "m (lit ''Content-Length'') = None \<Longrightarrow>
     foldl (insert_header lower) m ls (lit ''Content-Length'') = None"
proof (induction ls arbitrary: m)
  case (Cons l ls)
  then show ?case
    by (auto simp: insert_header_def content_length_missing content_length_missing [symmetric]
        simp del: lit_simps split: option.split)
qed simp

lemma parse_head_content_length:
  "parse_head lower buffer = Inr req \<Longrightarrow> hr_headers req (lit ''Content-Length'') = None"
  by (auto simp: parse_head_def insert_headers_content_length simp del: lit_simps
      split: option.splits list.splits)

lemma parse_http_request_eq:
  "parse_http_request R H lower
   = await (map_err Timeout (timed_read_head H 5)) (\<lambda>buffer. of_result (parse_head lower buffer))"
proof
  fix w
  have "await (of_result (parse_head lower b)) (\<lambda>req.
       case hr_headers req (lit ''Content-Length'') of
         Some content_length \<Rightarrow>
           (case parse_usize content_length of
              None \<Rightarrow> err InvalidContentLength
            | Some n \<Rightarrow>
                if 2 ^ 63 \<le> n then panic
                else await (map_err IOError (read_exact R n)) (\<lambda>bs. ok (req\<lparr>hr_body := bs\<rparr>)))
       | None \<Rightarrow> ok req) s = of_result (parse_head lower b) s" for b s
    using parse_head_content_length [of b]
    by (cases "parse_head lower b") (simp_all add: run del: lit_simps)
  then have "(\<lambda>b. await (of_result (parse_head lower b)) (\<lambda>req.
       case hr_headers req (lit ''Content-Length'') of
         Some content_length \<Rightarrow>
           (case parse_usize content_length of
              None \<Rightarrow> err InvalidContentLength
            | Some n \<Rightarrow>
                if 2 ^ 63 \<le> n then panic
                else await (map_err IOError (read_exact R n)) (\<lambda>bs. ok (req\<lparr>hr_body := bs\<rparr>)))
       | None \<Rightarrow> ok req)) = (\<lambda>b. of_result (parse_head lower b))"
    by (intro ext)
  then show "parse_http_request R H lower w
      = await (map_err Timeout (timed_read_head H 5)) (\<lambda>b. of_result (parse_head lower b)) w"
    by (simp only: parse_http_request_def)
qed

end

text \<open>However it ends, parsing a request touches the input side only.\<close>

lemma parse_http_request_frame:
  assumes "line_source R view H" "lowercase lower"
  shows "only_input (view w) (view (snd (parse_http_request R H lower w)))"
proof -
  obtain r where "fst (timed_read_head H 5 w) = Returns r"
    using line_source.timed_read_head_returns [OF assms(1)] by blast
  with line_source.timed_read_head_frame [OF assms(1), of w 5] show ?thesis
    by (cases r) (simp_all add: lowercase.parse_http_request_eq [OF assms(2)] run)
qed

section \<open>The client's request, line by line\<close>

definition visible :: "rstring \<Rightarrow> bool" where
  "visible s \<longleftrightarrow> list_all (\<lambda>c. 33 \<le> c \<and> c \<le> 126) s"

lemma visible_append [simp]: "visible (s @ t) \<longleftrightarrow> visible s \<and> visible t"
  by (simp add: visible_def)

lemma visible_word: "visible s \<Longrightarrow> s \<noteq> [] \<Longrightarrow> is_word s"
  by (auto simp: visible_def is_word_def is_whitespace_def list_all_iff)

lemma visible_valid: "visible s \<Longrightarrow> valid_string s"
  by (auto simp: visible_def valid_string_def list_all_iff is_scalar_def)

lemma visible_no_eol: "visible s \<Longrightarrow> 13 \<notin> set s" "visible s \<Longrightarrow> 10 \<notin> set s"
  by (auto simp: visible_def list_all_iff)

lemma visible_show_nat [simp]: "visible (show_nat n)"
  using show_nat_digits [of n] by (auto simp: visible_def list_all_iff is_digit_def)

lemma header_ok_visible:
  "visible name \<Longrightarrow> 58 \<notin> set name \<Longrightarrow> visible v \<Longrightarrow> v \<noteq> [] \<Longrightarrow> header_ok (name, v)"
  by (simp add: header_ok_def header_line_def visible_word visible_valid visible_no_eol is_line_def
      is_scalar_def)

text \<open>
  What the \<open>url\<close> crate promises of a \<open>ws\<close> or \<open>wss\<close> URL: host, path and query are made of
  visible ASCII characters (anything else is percent-encoded), and the path is not empty.
\<close>

locale url_library =
  fixes url_parse :: "rstring \<Rightarrow> parse_error + url"
  assumes url_text:
    "url_parse s = Inr u \<Longrightarrow> url_scheme u = lit ''ws'' \<or> url_scheme u = lit ''wss'' \<Longrightarrow>
       visible (url_path u) \<and> url_path u \<noteq> [] \<and> visible (unwrap_or [] (url_query u))
       \<and> (\<forall>h. url_host u = Some h \<longrightarrow> visible h \<and> h \<noteq> [])"

text \<open>An instance: URLs of the form \<open>ws://host/path\<close> in visible characters.\<close>

definition sim_url_parse :: "rstring \<Rightarrow> parse_error + url" where
  "sim_url_parse s =
     (if \<not> starts_with (lit ''ws://'') s then Inl (UrlParseError 0)
      else
        (let host = takeWhile (\<lambda>c. c \<noteq> 47) (drop 5 s); path = dropWhile (\<lambda>c. c \<noteq> 47) (drop 5 s)
         in if host = [] \<or> path = [] \<or> \<not> visible host \<or> \<not> visible path then Inl (UrlParseError 1)
            else Inr \<lparr>url_scheme = lit ''ws'', url_host = Some host, url_port = None,
                      url_path = path, url_query = None\<rparr>))"

interpretation sim_urls: url_library sim_url_parse
  by unfold_locales (auto simp: sim_url_parse_def visible_def Let_def split: if_splits)

definition request_path :: "url \<Rightarrow> rstring" where
  "request_path u = url_path u @ (case url_query u of Some q \<Rightarrow> lit ''?'' @ q | None \<Rightarrow> [])"

definition host_field :: "url \<Rightarrow> rstring \<Rightarrow> rstring" where
  "host_field u host = host @ (case url_port u of Some p \<Rightarrow> lit '':'' @ show_nat p | None \<Rightarrow> [])"

definition extension_headers :: "extensions option \<Rightarrow> (rstring \<times> rstring) list" where
  "extension_headers exts =
     (case exts of
        Some e \<Rightarrow> if permessage_deflate e
          then [(lit ''Sec-WebSocket-Extensions'', extension_value e)] else []
      | None \<Rightarrow> [])"

text \<open>The bytes the header writer leaves after the empty line.\<close>

definition extra_crlf :: "extensions option \<Rightarrow> rstring" where
  "extra_crlf exts =
     (case exts of Some e \<Rightarrow> if permessage_deflate e then [] else crlf | None \<Rightarrow> [])"

definition client_headers :: "url \<Rightarrow> rstring \<Rightarrow> rstring \<Rightarrow> extensions option \<Rightarrow> (rstring \<times> rstring) list" where
  "client_headers u host key exts =
     [(lit ''Host'', host_field u host), (lit ''Connection'', lit ''Upgrade''),
      (lit ''Upgrade'', lit ''websocket''), (lit ''Sec-WebSocket-Key'', key),
      (lit ''Sec-WebSocket-Version'', lit ''13'')] @ extension_headers exts"

lemma add_extension_headers_joined:
  "add_extension_headers (joined ls) exts
   = joined (ls @ map header_line (extension_headers exts)) @ crlf @ extra_crlf exts"
proof (cases "\<exists>e. exts = Some e \<and> permessage_deflate e")
  case True
  then show ?thesis
    by (auto simp: add_extension_headers_value extension_headers_def extra_crlf_def header_line_def
        joined_def)
next
  case False
  then show ?thesis
    by (auto simp: add_extension_headers_def extension_headers_def extra_crlf_def joined_def
        split: option.split)
qed

lemma joined_append [simp]: "joined (ls @ ls') = joined ls @ joined ls'"
  by (simp add: joined_def)

text \<open>The extension value and the other headers survive the line format.\<close>

lemma extension_params_visible:
  "q \<in> set (extension_params e) \<Longrightarrow> visible q \<and> q \<noteq> []"
  by (auto simp: extension_params_def extension_names visible_def [symmetric] simp del: lit_simps
      split: if_splits option.splits)
     (simp_all add: visible_def)

lemma extension_list_text:
  assumes "\<forall>q\<in>set ps. visible q \<and> q \<noteq> []"
  shows "list_all (\<lambda>c. 32 \<le> c \<and> c \<le> 126) (concat (map (\<lambda>q. lit ''; '' @ q) ps))"
    and "ps \<noteq> [] \<Longrightarrow> \<not> is_whitespace (last (concat (map (\<lambda>q. lit ''; '' @ q) ps)))"
  using assms
proof (induction ps)
  case (Cons q ps)
  {
    case 1
    with Cons.IH(1) show ?case by (auto simp: visible_def list_all_iff)
  next
    case 2
    then have "\<not> is_whitespace (last q)"
      using visible_word [of q] by (simp add: is_word_def)
    with 2 Cons.IH(2) show ?case by (cases ps) auto
  }
qed simp_all

lemma extension_value_header: "header_ok (lit ''Sec-WebSocket-Extensions'', extension_value e)"
proof -
  let ?ps = "concat (map (\<lambda>q. lit ''; '' @ q) (extension_params e))"
  have ps: "\<forall>q\<in>set (extension_params e). visible q \<and> q \<noteq> []"
    using extension_params_visible by blast
  note t = extension_list_text [OF ps]
  have "\<not> is_whitespace (last (PERMESSAGE_DEFLATE @ ?ps))"
    using t(2) by (cases "extension_params e = []")
      (simp_all add: extension_names is_whitespace_def last_append)
  then have "trim (extension_value e) = extension_value e"
    by (intro trim_id) (simp_all add: extension_value_def extension_names is_whitespace_def)
  moreover have "list_all (\<lambda>c. 32 \<le> c \<and> c \<le> 126) (extension_value e)"
    using t(1) by (simp add: extension_value_def extension_names)
  then have "13 \<notin> set (extension_value e)" "10 \<notin> set (extension_value e)"
    "valid_string (extension_value e)"
    by (auto simp: list_all_iff valid_string_def is_scalar_def)
  ultimately show ?thesis
    by (simp add: header_ok_def header_line_def is_line_def is_scalar_def)
qed

lemma client_headers_ok:
  assumes "visible host" "host \<noteq> []" "visible key" "key \<noteq> []"
  shows "list_all header_ok (client_headers u host key exts)"
proof -
  have h: "visible (host_field u host)" "host_field u host \<noteq> []"
    using assms by (auto simp: host_field_def visible_def split: option.split)
       (metis visible_def visible_show_nat)
  have "header_ok (lit ''Host'', host_field u host)" "header_ok (lit ''Sec-WebSocket-Key'', key)"
    using h assms by (intro header_ok_visible; simp add: visible_def)+
  moreover have "header_ok (lit ''Connection'', lit ''Upgrade'')" "header_ok (lit ''Upgrade'', lit ''websocket'')"
    "header_ok (lit ''Sec-WebSocket-Version'', lit ''13'')"
    by (intro header_ok_visible; simp add: visible_def)+
  ultimately show ?thesis
    using extension_value_header
    by (simp add: client_headers_def extension_headers_def del: lit_simps split: option.split)
qed

text \<open>The names as the parser stores them.\<close>

context lowercase
begin

lemma lower_visible: "visible s \<Longrightarrow> lower s = map ascii_lower s"
  by (rule lower_ascii) (auto simp: visible_def list_all_iff)

lemma lower_names:
  "lower (lit ''Host'') = lit ''host''" "lower (lit ''Connection'') = lit ''connection''"
  "lower (lit ''Upgrade'') = lit ''upgrade''"
  "lower (lit ''Sec-WebSocket-Key'') = lit ''sec-websocket-key''"
  "lower (lit ''Sec-WebSocket-Version'') = lit ''sec-websocket-version''"
  "lower (lit ''Sec-WebSocket-Extensions'') = lit ''sec-websocket-extensions''"
  "lower (lit ''Sec-WebSocket-Accept'') = lit ''sec-websocket-accept''"
  by (simp_all add: lower_visible visible_def ascii_lower_def)

lemma client_headers_lookup:
  "headers_of lower (client_headers u host key exts) (lit ''host'') = Some (host_field u host)"
  "headers_of lower (client_headers u host key exts) (lit ''sec-websocket-key'') = Some key"
  "headers_of lower (client_headers u host key exts) (lit ''sec-websocket-extensions'')
   = (case exts of Some e \<Rightarrow> if permessage_deflate e then Some (extension_value e) else None | None \<Rightarrow> None)"
  by (simp_all add: headers_of_def client_headers_def extension_headers_def lower_names [simplified]
      split: option.split)

end

lemma construct_http_request_head:
  assumes "url_parse ws_url = Inr u" "url_scheme u = lit ''ws'' \<or> url_scheme u = lit ''wss''"
    and "url_host u = Some host"
  shows "construct_http_request url_parse ws_url key exts
    = Inr (http_head (lit ''GET '' @ request_path u @ lit '' HTTP/1.1'') (client_headers u host key exts)
             @ extra_crlf exts,
           host @ lit '':'' @ show_nat (unwrap_or (if url_scheme u = lit ''wss'' then 443 else 80) (url_port u)),
           host, url_scheme u = lit ''wss'')"
proof -
  let ?ls = "[lit ''GET '' @ request_path u @ lit '' HTTP/1.1'', lit ''Host: '' @ host_field u host,
      lit ''Connection: Upgrade'', lit ''Upgrade: websocket'', lit ''Sec-WebSocket-Key: '' @ key,
      lit ''Sec-WebSocket-Version: 13'']"
  have "http_head (lit ''GET '' @ request_path u @ lit '' HTTP/1.1'') (client_headers u host key exts)
      @ extra_crlf exts = add_extension_headers (joined ?ls) exts"
    unfolding add_extension_headers_joined
    by (simp add: http_head_def client_headers_def header_line_def)
  with assms show ?thesis
    by (auto simp: construct_http_request_def request_path_def host_field_def split: option.split)
qed

section \<open>Reading them off the socket\<close>

lemma head_parsed:
  assumes "line_source R view H" "lowercase lower" "punctual (view w)"
    and "incoming (view w) = encode_utf8 (http_head request_line hs) @ rest"
    and "is_line request_line" "valid_string request_line" "list_all header_ok hs"
    and "split_whitespace request_line = m # u # v # ws"
  shows "\<exists>w'. parse_http_request R H lower w
      = (Returns (Inr \<lparr>hr_method = m, hr_uri = u, hr_version = v,
                       hr_headers = headers_of lower hs, hr_body = []\<rparr>), w')
    \<and> view w' = (view w)\<lparr>incoming := rest\<rparr>"
proof -
  let ?ls = "request_line # map header_line hs"
  have "list_all header_ok hs \<Longrightarrow> valid_string (joined (map header_line hs))"
    by (induction hs) (simp_all add: header_ok_def is_scalar_def)
  with assms(5-7) have ls: "list_all is_line ?ls" "valid_string (joined ?ls)"
    by (auto simp: list_all_iff header_ok_def is_scalar_def)
  have inc: "incoming (view w) = encode_utf8 (joined ?ls @ crlf) @ rest"
    using assms(4) by (simp only: http_head_def)
  obtain w' where w': "timed_read_head H 5 w = (Returns (Inr (joined ?ls @ crlf)), w')"
    "view w' = (view w)\<lparr>incoming := rest\<rparr>"
    by (rule line_source.timed_read_head_lines [OF assms(1,3) inc ls]) simp_all
  with parse_head_http_head [OF assms(5,8,7), of lower "[]"] show ?thesis
    by (simp add: lowercase.parse_http_request_eq [OF assms(2)] run http_head_def)
qed

lemma client_request_read:
  assumes "url_library url_parse" "url_parse ws_url = Inr u" "url_host u = Some host"
    and "url_scheme u = lit ''ws'' \<or> url_scheme u = lit ''wss''" "visible key" "key \<noteq> []"
    and "construct_http_request url_parse ws_url key exts = Inr (request, address, domain, use_tls)"
    and "line_source R view H" "lowercase lower" "punctual (view w)"
    and "incoming (view w) = encode_utf8 request @ rest"
  shows "\<exists>req w'. parse_http_request R H lower w = (Returns (Inr req), w')
        \<and> view w' = (view w)\<lparr>incoming := encode_utf8 (extra_crlf exts) @ rest\<rparr>
        \<and> hr_method req = lit ''GET'' \<and> hr_uri req = request_path u
        \<and> hr_headers req (lit ''host'') = Some (host_field u host)
        \<and> hr_headers req (lit ''sec-websocket-key'') = Some key
        \<and> hr_headers req (lit ''sec-websocket-extensions'')
            = (case exts of Some e \<Rightarrow> if permessage_deflate e then Some (extension_value e) else None
               | None \<Rightarrow> None)"
proof -
  let ?rl = "lit ''GET '' @ request_path u @ lit '' HTTP/1.1''"
  from url_library.url_text [OF assms(1,2,4)] assms(3)
  have t: "visible (url_path u)" "url_path u \<noteq> []" "visible (unwrap_or [] (url_query u))"
    "visible host" "host \<noteq> []" by simp_all
  then have path: "visible (request_path u)" "request_path u \<noteq> []"
    by (auto simp: request_path_def visible_def split: option.splits)
  have sw: "split_whitespace ?rl = [lit ''GET'', request_path u, lit ''HTTP/1.1'']"
    using split_whitespace_Cons [of "lit ''GET''"] split_whitespace_Cons [OF visible_word [OF path]]
      split_whitespace_word [OF visible_word, of "lit ''HTTP/1.1''"]
    by (simp add: visible_def visible_word)
  have rl: "is_line ?rl" "valid_string ?rl"
    using visible_no_eol [OF path(1)] visible_valid [OF path(1)] by (simp_all add: is_line_def is_scalar_def)
  note head = construct_http_request_head [where url_parse = url_parse, OF assms(2,4,3), of key exts]
  have "request = http_head ?rl (client_headers u host key exts) @ extra_crlf exts"
    using assms(7) unfolding head by auto
  with assms(11) have inc: "incoming (view w)
      = encode_utf8 (http_head ?rl (client_headers u host key exts)) @ encode_utf8 (extra_crlf exts) @ rest"
    by (simp del: lit_simps)
  note parsed = head_parsed [OF assms(8,9), OF assms(10) inc rl
      client_headers_ok [OF t(4,5) assms(5,6)] sw]
  obtain w' where w': "parse_http_request R H lower w = (Returns (Inr
      \<lparr>hr_method = lit ''GET'', hr_uri = request_path u, hr_version = lit ''HTTP/1.1'',
       hr_headers = headers_of lower (client_headers u host key exts), hr_body = []\<rparr>), w')"
    "view w' = (view w)\<lparr>incoming := encode_utf8 (extra_crlf exts) @ rest\<rparr>" using parsed by blast
  define req where "req = \<lparr>hr_method = lit ''GET'', hr_uri = request_path u,
      hr_version = lit ''HTTP/1.1'', hr_headers = headers_of lower (client_headers u host key exts),
      hr_body = []\<rparr>"
  then show ?thesis
    using w' lowercase.client_headers_lookup [OF assms(9), of u host key exts]
    by (intro conjI exI [of _ req] exI [of _ w']) (simp_all add: req_def)
qed

lemma head_returns:
  assumes "line_source R view H" "lowercase lower"
  shows "\<exists>r w'. parse_http_request R H lower w = (Returns r, w')"
proof -
  obtain r w' where "timed_read_head H 5 w = (Returns r, w')"
    using line_source.timed_read_head_returns [OF assms(1), of 5 w] by (metis prod.collapse)
  then show ?thesis
    by (cases r) (simp_all add: lowercase.parse_http_request_eq [OF assms(2)] run)
qed

section \<open>Properties\<close>

text \<open>
  \<^bold>\<open>C26.\<close> Parsing inverts writing: the head of a request (or response), a first line with three
  words and any headers, each closed by \<open>\r\n\<close>, then an empty line, is read off the socket up to
  and including the empty line and parsed into these words and headers, names in lower case, a
  later header overriding an earlier one. Whatever follows stays on the socket and the body is
  empty, even when a \<open>Content-Length\<close> header announces one.
\<close>

theorem request_head_parsed:
  assumes "line_source R view H" "lowercase lower" "punctual (view w)"
    and "incoming (view w) = encode_utf8 (http_head request_line hs) @ rest"
    and "is_line request_line" "valid_string request_line" "list_all header_ok hs"
    and "split_whitespace request_line = m # u # v # ws"
  shows "\<exists>w'. parse_http_request R H lower w
      = (Returns (Inr \<lparr>hr_method = m, hr_uri = u, hr_version = v,
                       hr_headers = headers_of lower hs, hr_body = []\<rparr>), w')
    \<and> view w' = (view w)\<lparr>incoming := rest\<rparr>"
  using assms by (rule head_parsed)

theorem request_head_parsed_witness:
  "\<exists>req w'. parse_http_request sim_runtime sim_line_io (map ascii_lower)
       (sim_peer (encode_utf8 (http_head (lit ''GET / HTTP/1.1'')
          [(lit ''Host'', lit ''a''), (lit ''HOST'', lit ''b''), (lit ''Content-Length'', lit ''2'')]) @ [7, 7]))
     = (Returns (Inr req), w')
     \<and> hr_method req = lit ''GET'' \<and> hr_headers req (lit ''host'') = Some (lit ''b'')
     \<and> hr_body req = [] \<and> map snd (arrivals w') = [7, 7]"
proof -
  let ?hs = "[(lit ''Host'', lit ''a''), (lit ''HOST'', lit ''b''), (lit ''Content-Length'', lit ''2'')]"
  let ?w = "sim_peer (encode_utf8 (http_head (lit ''GET / HTTP/1.1'') ?hs) @ [7, 7])"
  have hs: "list_all header_ok ?hs"
    by (simp add: header_ok_def header_line_def is_line_def trim_def is_whitespace_def is_scalar_def)
  have rl: "is_line (lit ''GET / HTTP/1.1'')" "valid_string (lit ''GET / HTTP/1.1'')"
    by (simp_all add: is_line_def is_scalar_def)
  have sw: "split_whitespace (lit ''GET / HTTP/1.1'') = [lit ''GET'', lit ''/'', lit ''HTTP/1.1'']"
    by (simp add: split_whitespace_def is_whitespace_def)
  have w: "punctual (sim_view ?w)"
    "incoming (sim_view ?w) = encode_utf8 (http_head (lit ''GET / HTTP/1.1'') ?hs) @ [7, 7]"
    by (rule sim_peer_view)+
  note parsed = request_head_parsed [OF sim_lines.line_source_axioms ascii.lowercase_axioms,
      OF w rl hs sw]
  obtain w' where w': "parse_http_request sim_runtime sim_line_io (map ascii_lower) ?w
      = (Returns (Inr \<lparr>hr_method = lit ''GET'', hr_uri = lit ''/'', hr_version = lit ''HTTP/1.1'',
            hr_headers = headers_of (map ascii_lower) ?hs, hr_body = []\<rparr>), w')"
    "sim_view w' = (sim_view ?w)\<lparr>incoming := [7, 7]\<rparr>" using parsed by blast
  have "headers_of (map ascii_lower) ?hs (lit ''host'') = Some (lit ''b'')"
    by (simp add: headers_of_def ascii_lower_def)
  moreover have "incoming (sim_view w') = [7, 7]" by (simp add: w'(2))
  then have "map snd (arrivals w') = [7, 7]" by (simp add: sim_view_def)
  ultimately show ?thesis using w'(1) by simp
qed

text \<open>
  The request a client builds for a \<open>ws\<close> or \<open>wss\<close> URL, and what a server makes of it.

  \<^bold>\<open>C25.\<close> The text \<open>construct_http_request\<close> builds parses back to the method \<open>GET\<close>, the URL's path and
  query, its host (with the port only when the URL names one), the key and the extension value;
  what is left on the socket is the stray line end of extensions that are switched off. The
  TCP address always has a port, that of the scheme unless the URL names another, and TLS is used
  exactly for \<open>wss\<close>.
\<close>

theorem client_request_parsed:
  assumes "url_library url_parse" "url_parse ws_url = Inr u" "url_host u = Some host"
    and "url_scheme u = lit ''ws'' \<or> url_scheme u = lit ''wss''" "visible key" "key \<noteq> []"
    and "construct_http_request url_parse ws_url key exts = Inr (request, address, domain, use_tls)"
    and "line_source R view H" "lowercase lower" "punctual (view w)"
    and "incoming (view w) = encode_utf8 request @ rest"
  shows "address = host @ lit '':'' @ show_nat (unwrap_or (if use_tls then 443 else 80) (url_port u))
    \<and> domain = host \<and> (use_tls \<longleftrightarrow> url_scheme u = lit ''wss'')
    \<and> (\<exists>req w'. parse_http_request R H lower w = (Returns (Inr req), w')
        \<and> view w' = (view w)\<lparr>incoming := encode_utf8 (extra_crlf exts) @ rest\<rparr>
        \<and> hr_method req = lit ''GET'' \<and> hr_uri req = request_path u
        \<and> hr_headers req (lit ''host'') = Some (host_field u host)
        \<and> hr_headers req (lit ''sec-websocket-key'') = Some key
        \<and> hr_headers req (lit ''sec-websocket-extensions'')
            = (case exts of Some e \<Rightarrow> if permessage_deflate e then Some (extension_value e) else None
               | None \<Rightarrow> None))"
proof -
  have "address = host @ lit '':'' @ show_nat (unwrap_or (if use_tls then 443 else 80) (url_port u))
    \<and> domain = host \<and> (use_tls \<longleftrightarrow> url_scheme u = lit ''wss'')"
    using construct_http_request_head [where url_parse = url_parse, OF assms(2,4,3), of key exts] assms(7)
    by auto
  with client_request_read [OF assms] show ?thesis by blast
qed

theorem client_request_parsed_witness:
  "\<exists>request address w' req.
      construct_http_request sim_url_parse (lit ''ws://h/p'') (lit ''k'') (Some default_extensions)
        = Inr (request, address, lit ''h'', False) \<and> address = lit ''h:80''
    \<and> parse_http_request sim_runtime sim_line_io (map ascii_lower) (sim_peer (encode_utf8 request))
        = (Returns (Inr req), w')
    \<and> hr_uri req = lit ''/p'' \<and> hr_headers req (lit ''sec-websocket-key'') = Some (lit ''k'')
    \<and> map snd (arrivals w') = [13, 10]"
proof -
  let ?u = "\<lparr>url_scheme = lit ''ws'', url_host = Some (lit ''h''), url_port = None,
             url_path = lit ''/p'', url_query = None\<rparr>"
  have u: "sim_url_parse (lit ''ws://h/p'') = Inr ?u"
    by (simp add: sim_url_parse_def visible_def)
  have f: "url_host ?u = Some (lit ''h'')" "url_scheme ?u = lit ''ws'' \<or> url_scheme ?u = lit ''wss''"
    "visible (lit ''k'')" "lit ''k'' \<noteq> []"
    by (simp_all add: visible_def)
  obtain request address domain use_tls where c:
    "construct_http_request sim_url_parse (lit ''ws://h/p'') (lit ''k'') (Some default_extensions)
      = Inr (request, address, domain, use_tls)"
    using construct_http_request_head [where url_parse = sim_url_parse, OF u f(2,1)] by blast
  note wit = client_request_parsed [OF sim_urls.url_library_axioms, OF u f c,
      OF sim_lines.line_source_axioms ascii.lowercase_axioms,
      of "sim_peer (encode_utf8 request)" "[]"]
  have x: "encode_utf8 (extra_crlf (Some default_extensions)) = [13, 10]"
    by (simp add: extra_crlf_def default_extensions_def encode_char_def byte_def)
  from wit obtain req w' where
    "parse_http_request sim_runtime sim_line_io (map ascii_lower) (sim_peer (encode_utf8 request))
      = (Returns (Inr req), w')"
    "incoming (sim_view w') = [13, 10]" "hr_uri req = lit ''/p''"
    "hr_headers req (lit ''sec-websocket-key'') = Some (lit ''k'')" "domain = lit ''h''" "\<not> use_tls"
    "address = lit ''h:80''"
    by (auto simp: x request_path_def show_nat.simps)
  with c show ?thesis by (auto simp: sim_view_def)
qed

text \<open>
  \<^bold>\<open>C27.\<close> Reading a request never blocks for ever: whatever the peer sends or leaves out, and
  however slowly, \<open>parse_http_request\<close> returns a request or an error.
\<close>

theorem parse_http_request_returns:
  assumes "line_source R view H" "lowercase lower"
  shows "\<exists>r w'. parse_http_request R H lower w = (Returns r, w')"
  using assms by (rule head_returns)

theorem parse_http_request_returns_witness:
  "fst (parse_http_request sim_runtime sim_line_io (map ascii_lower) (sim_silent [71, 69]))
     = Returns (Inl (Timeout Elapsed))"
proof -
  let ?w = "sim_silent [71, 69]"
  obtain r w' where r: "parse_http_request sim_runtime sim_line_io (map ascii_lower) ?w = (Returns r, w')"
    using parse_http_request_returns [OF sim_lines.line_source_axioms ascii.lowercase_axioms] by blast
  moreover have "timed_read_head sim_line_io 5 ?w = (Returns (Inl Elapsed), snd (timed_read_head sim_line_io 5 ?w))"
    by (simp add: timed_read_head_def or_hang_def read_head.simps sim_line_io_def sim_read_line_def
        sim_silent_def sim_peer_def sim_line_length_def)
  then have "fst (timed_read_head sim_line_io 5 ?w) = Returns (Inl Elapsed)" by (metis fst_conv)
  ultimately show ?thesis
    by (simp add: ascii.parse_http_request_eq run)
qed

end
