(* ===== verification/Sending.thy ===== *)
theory Sending
  imports Session
begin

text \<open>
  What the operations of \<open>WSWriter\<close> do on their own: the shape of the frames, the refused
  and the panicking inputs, and \<open>send_large_data_fragmented\<close>, which writes its fragments one
  by one.
\<close>

section \<open>The frames of one message\<close>

lemma message_frames_payloads: "map payload (message_frames z op ps) = ps"
proof -
  have "map payload (continuation ps) = ps" for ps by (induction ps) simp_all
  then show ?thesis by (cases ps) simp_all
qed

lemma continuation_final:
  "map final_fragment (continuation ps) = map (\<lambda>i. Suc i = length ps) [0..<length ps]"
proof (induction ps)
  case (Cons p ps)
  have "map (\<lambda>i. Suc i = length (p # ps)) [0..<length (p # ps)]
      = (ps = []) # map (\<lambda>i. Suc i = length ps) [0..<length ps]"
    by (simp add: upt_conv_Cons map_Suc_upt [symmetric] del: upt_Suc)
  with Cons show ?case by simp
qed simp

lemma message_frames_final:
  "map final_fragment (message_frames z op ps) = map (\<lambda>i. Suc i = length ps) [0..<length ps]"
  using continuation_final [of ps] by (cases ps) simp_all

lemma finish_chunk_frames:
  "map payload (finish_last (chunk_frames op z cs)) = cs
   \<and> map final_fragment (finish_last (chunk_frames op z cs)) = map (\<lambda>i. Suc i = length cs) [0..<length cs]
   \<and> map compressed (finish_last (chunk_frames op z cs)) = map (\<lambda>_. z) cs
   \<and> map opcode (finish_last (chunk_frames op z cs))
       = (if cs = [] then [] else op # map (\<lambda>_. op_code.Continue) (tl cs))"
proof -
  have f: "map g (flagged b frs) = map g frs" if "\<And>fr c. g (fr\<lparr>compressed := c\<rparr>) = g fr" for g :: "frame \<Rightarrow> 'x" and b frs
    using that by (induction frs arbitrary: b) simp_all
  note m = flagged_frames [of z op cs]
  have "map payload (finish_last (chunk_frames op z cs)) = cs"
    using f [of payload z "finish_last (chunk_frames op z cs)"] message_frames_payloads [of z op cs] by (simp add: m)
  moreover have "map final_fragment (finish_last (chunk_frames op z cs))
      = map (\<lambda>i. Suc i = length cs) [0..<length cs]"
    using f [of final_fragment z "finish_last (chunk_frames op z cs)"] message_frames_final [of z op cs] by (simp add: m)
  moreover have "map opcode (continuation ps) = map (\<lambda>_. op_code.Continue) ps" for ps
    by (induction ps) simp_all
  then have "map opcode (message_frames z op cs)
       = (if cs = [] then [] else op # map (\<lambda>_. op_code.Continue) (tl cs))"
    by (cases cs) simp_all
  then have "map opcode (finish_last (chunk_frames op z cs))
       = (if cs = [] then [] else op # map (\<lambda>_. op_code.Continue) (tl cs))"
    using f [of opcode z "finish_last (chunk_frames op z cs)"] by (simp add: m)
  moreover have "map compressed (finish_last frs) = map compressed frs" for frs
    by (cases frs rule: rev_cases) (simp_all add: finish_last_def)
  then have "map compressed (finish_last (chunk_frames op z cs)) = map (\<lambda>_. z) cs"
    by (cases cs) (simp_all add: comp_def)
  ultimately show ?thesis by blast
qed

text \<open>
  \<^bold>\<open>C17.\<close> The frames a nonempty message becomes: their payloads, in order, are the message's
  bytes (after compression if it is on), none is empty or longer than \<open>max_frame_size\<close>, the
  first carries the message's opcode and the others Continue, and exactly the last is final.
\<close>

theorem convert_to_frames_shape:
  assumes "as_binary m \<noteq> []" "0 < frame_limit (sw_config self)"
    and "deflated C self (as_binary m) z data enc"
  shows "\<exists>frs. convert_to_frames C m (self, w) = (Returns (Inr frs), (self\<lparr>sw_encoder := enc\<rparr>, w))
     \<and> concat (map payload frs) = data
     \<and> (\<forall>fr\<in>set frs. 0 < length (payload fr) \<and> length (payload fr) \<le> frame_limit (sw_config self)
                       \<and> compressed fr = z)
     \<and> map opcode frs = message_opcode m # map (\<lambda>_. op_code.Continue) (tl frs)
     \<and> map final_fragment frs = map (\<lambda>i. Suc i = length frs) [0..<length frs]"
proof -
  let ?n = "frame_limit (sw_config self)" and ?cs = "chunks (frame_limit (sw_config self)) data"
  let ?frs = "finish_last (chunk_frames (message_opcode m) z ?cs)"
  have d: "data \<noteq> []" using deflated_nonempty [OF assms(3)] assms(1) by simp
  with assms(2) have c: "?cs \<noteq> []" by (simp add: chunks_eq_Nil_iff)
  note f = finish_chunk_frames [of "message_opcode m" z ?cs]
  then have len: "length ?frs = length ?cs" by (metis length_map)
  have "convert_to_frames C m (self, w) = (Returns (Inr ?frs), (self\<lparr>sw_encoder := enc\<rparr>, w))"
    using assms by (simp add: convert_to_frames_def Let_def run check_compression_deflated [OF assms(3)])
  moreover have "concat (map payload ?frs) = data"
    using f assms(2) by (simp add: concat_chunks)
  moreover have "0 < length (payload fr) \<and> length (payload fr) \<le> ?n \<and> compressed fr = z"
    if "fr \<in> set ?frs" for fr
  proof -
    from that have "payload fr \<in> set (map payload ?frs)" "compressed fr \<in> set (map compressed ?frs)"
      by simp_all
    with f have "payload fr \<in> set ?cs" "compressed fr \<in> set (map (\<lambda>_. z) ?cs)" by metis+
    then show ?thesis by (auto dest: chunks_length)
  qed
  moreover have "map opcode ?frs = message_opcode m # map (\<lambda>_. op_code.Continue) (tl ?frs)"
    using f c len by (simp add: map_replicate_const)
  moreover have "map final_fragment ?frs = map (\<lambda>i. Suc i = length ?frs) [0..<length ?frs]"
    using f len by simp
  ultimately show ?thesis by (intro exI [of _ ?frs] conjI ballI) blast+
qed

theorem convert_to_frames_shape_witness:
  "\<exists>frs. convert_to_frames stored_deflater (message.Binary [1, 2, 3])
       (zip_writer\<lparr>sw_config := small_config\<lparr>max_frame_size := Some 2\<rparr>\<rparr>, sim_peer [])
     = (Returns (Inr frs), (zip_writer\<lparr>sw_config := small_config\<lparr>max_frame_size := Some 2\<rparr>\<rparr>, sim_peer []))
   \<and> concat (map payload frs) = [1, 2, 3]
   \<and> (\<forall>fr\<in>set frs. 0 < length (payload fr) \<and> length (payload fr) \<le> 2 \<and> \<not> compressed fr)"
proof -
  let ?s = "zip_writer\<lparr>sw_config := small_config\<lparr>max_frame_size := Some 2\<rparr>\<rparr>"
  have "deflated stored_deflater ?s (as_binary (message.Binary [1, 2, 3])) False [1, 2, 3] (sw_encoder ?s)"
    by (simp add: deflated_def small_config_def deflate_enabled_def default_extensions_def as_binary_def)
  from convert_to_frames_shape [OF _ _ this, of "sim_peer []"] show ?thesis
    by (auto simp: frame_limit_def as_binary_def)
qed

section \<open>Refused and panicking inputs\<close>

text \<open>
  \<^bold>\<open>C31.\<close> A message longer than \<open>max_message_size\<close> is refused with \<open>MaxMessageSize\<close>, and
  bytes that are not UTF-8 are refused by \<open>send\<close>, in both cases with nothing written and
  the writer unchanged.
\<close>

theorem oversized_and_invalid_refused:
  "(message_limit (sw_config self) < length (as_binary m) \<longrightarrow>
      send_message R C m (self, w) = (Returns (Inl MaxMessageSize), (self, w)))
   \<and> (decode_utf8 data = None \<longrightarrow>
        send R C data (self, w) = (Returns (Inl (FromUtf8Error (RejectedBytes data))), (self, w)))"
  by (simp add: send_message_def write_message_def send_def from_utf8_def run)

theorem oversized_and_invalid_refused_witness:
  "send_message sim_runtime stored_deflater (message.Binary [1, 2, 3])
     (zip_writer\<lparr>sw_config := zip_config 2\<rparr>, sim_peer [])
   = (Returns (Inl MaxMessageSize), (zip_writer\<lparr>sw_config := zip_config 2\<rparr>, sim_peer []))
   \<and> send sim_runtime stored_deflater [0xFF] (zip_writer, sim_peer [])
   = (Returns (Inl (FromUtf8Error (RejectedBytes [0xFF]))), (zip_writer, sim_peer []))"
proof -
  have "decode_utf8 [0xFF] = None" by code_simp
  then show ?thesis
    using oversized_and_invalid_refused [of "zip_writer\<lparr>sw_config := zip_config 2\<rparr>" "message.Binary [1, 2, 3]"
        sim_runtime stored_deflater "sim_peer []" "[0xFF]"]
      oversized_and_invalid_refused [of zip_writer "message.Binary [1, 2, 3]" sim_runtime stored_deflater
        "sim_peer []" "[0xFF]"]
    by (simp add: zip_config_def message_limit_def as_binary_def)
qed



section \<open>send_large_data_fragmented\<close>

text \<open>Every fragment goes through \<open>write_frames\<close> alone, so RSV1 is set on each or on none.\<close>

definition marked :: "bool \<Rightarrow> frame list \<Rightarrow> frame list" where
  "marked z fs = map (\<lambda>fr. fr\<lparr>compressed := z\<rparr>) fs"

lemma marked_simps [simp]:
  "marked z [] = []" "marked z (fr # fs) = fr\<lparr>compressed := z\<rparr> # marked z fs"
  by (simp_all add: marked_def)

lemma new_frame_compressed [simp]: "(new_frame fin op p z)\<lparr>compressed := z'\<rparr> = new_frame fin op p z'"
  by (simp add: new_frame_def)

lemma marked_continuation: "marked False (continuation ps) = continuation ps"
  by (induction ps) simp_all

lemma marked_message_frames: "marked False (message_frames False op ps) = message_frames False op ps"
  by (cases ps) (simp_all add: marked_continuation)

context byte_sink
begin

lemma write_one_frame_at:
  assumes "writable (view w)"
  obtains w' out where "write_frames R [fr] (self, w) = (Returns (Inr ()), (self, w'))"
    "view w' = (view w)\<lparr>outgoing := outgoing (view w) @ out\<rparr>" "carries [fr] out"
proof -
  from write_frames_at [OF assms, of "[fr]" self] obtain w' out where
    "write_frames R [fr] (self, w) = (Returns (Inr ()), (self, w'))"
    "view w' = (view w)\<lparr>outgoing := outgoing (view w) @ out\<rparr>"
    "carries [fr\<lparr>compressed := compressed fr\<rparr>] out" by auto
  then show ?thesis by (intro that) simp_all
qed

lemma send_fragments_at:
  assumes "writable (view w)" "n = i + length cs"
  shows "\<exists>w' out. send_fragments R z n i cs (self, w) = (Returns (Inr ()), (self, w'))
      \<and> view w' = (view w)\<lparr>outgoing := outgoing (view w) @ out\<rparr>
      \<and> carries (marked z (if i = 0 then message_frames z op_code.Text cs else continuation cs)) out"
  using assms
proof (induction cs arbitrary: i w)
  case Nil
  then show ?case by (auto simp: ok_def intro!: exI)
next
  case (Cons c cs)
  let ?fr = "new_frame (i = n - 1) (if i = 0 then op_code.Text else op_code.Continue) c z"
  from write_one_frame_at [OF Cons.prems(1), of ?fr self] obtain w1 out1 where
    1: "write_frames R [?fr] (self, w) = (Returns (Inr ()), (self, w1))"
      "view w1 = (view w)\<lparr>outgoing := outgoing (view w) @ out1\<rparr>" "carries [?fr] out1" .
  from Cons.IH [of w1 "Suc i"] 1(2) Cons.prems obtain w2 out2 where
    2: "send_fragments R z n (Suc i) cs (self, w1) = (Returns (Inr ()), (self, w2))"
      "view w2 = (view w1)\<lparr>outgoing := outgoing (view w1) @ out2\<rparr>"
      "carries (marked z (continuation cs)) out2" by auto
  have "i = n - 1 \<longleftrightarrow> cs = []" using Cons.prems(2) by (cases cs) simp_all
  then have "marked z (if i = 0 then message_frames z op_code.Text (c # cs) else continuation (c # cs))
      = [?fr] @ marked z (continuation cs)" by simp
  with carries_append [OF 1(3) 2(3)] 1(1,2) 2(1,2) show ?case
    by (intro exI [of _ w2] exI [of _ "out1 @ out2"]) (simp add: run)
qed

lemma send_large_at:
  assumes "writable (view w)" "0 < n" "n \<le> frame_limit (sw_config self)"
    and "length data \<le> message_limit (sw_config self)" "deflated C self data z data' enc"
  obtains w' out where
    "send_large_data_fragmented R C data n (self, w) = (Returns (Inr ()), (self\<lparr>sw_encoder := enc\<rparr>, w'))"
    "view w' = (view w)\<lparr>outgoing := outgoing (view w) @ out\<rparr>"
    "carries (marked z (message_frames z op_code.Text (chunks n data'))) out"
  using send_fragments_at [OF assms(1), of "length (chunks n data')" 0 "chunks n data'" z
      "self\<lparr>sw_encoder := enc\<rparr>"] assms(2-4)
  by (auto simp: send_large_data_fragmented_def run Let_def check_compression_deflated [OF assms(5)])

end

text \<open>
  \<^bold>\<open>C30.\<close> Without compression, \<open>send_large_data_fragmented\<close> on the bytes of a nonempty string
  and any fragment size up to \<open>max_frame_size\<close> is delivered by the other side as one text
  message.
\<close>

theorem large_data_delivered:
  assumes "byte_sink R1 view1" "connection R2 view2" "writable (view1 w1)"
    and "\<not> deflate_enabled (sw_config sdr)" "valid_string s" "encode_utf8 s \<noteq> []"
    and "0 < n" "n \<le> frame_limit (sw_config sdr)" "n \<le> frame_limit (rs_config rdr)" "n < 2 ^ 64"
    and "length (encode_utf8 s) \<le> message_limit (sw_config sdr)"
      "length (encode_utf8 s) \<le> message_limit (rs_config rdr)" "fragmented rdr = None"
    and "send_large_data_fragmented R1 C (encode_utf8 s) n (sdr, w1) = (r, (sdr', w1'))"
    and "punctual (view2 w2)" "writable (view2 w2)" "listening (view2 w2)"
    and "incoming (view2 w2) = drop (length (outgoing (view1 w1))) (outgoing (view1 w1')) @ rest"
  shows "r = Returns (Inr ()) \<and> sdr' = sdr \<and>
    (\<exists>w2'. polls R2 I (rdr, w2) (rdr, w2')
       \<and> view2 w2' = (view2 w2)\<lparr>incoming := rest, delivered := delivered (view2 w2) @ [Inr (message.Text s)]\<rparr>)"
proof -
  let ?cs = "chunks n (encode_utf8 s)" and ?fs = "message_frames False op_code.Text (chunks n (encode_utf8 s))"
  have d: "deflated C sdr (encode_utf8 s) False (encode_utf8 s) (sw_encoder sdr)"
    using assms(4) by (simp add: deflated_def)
  from byte_sink.send_large_at [OF assms(1,3,7,8,11) d] assms(14) obtain out where
    s: "r = Returns (Inr ())" "sdr' = sdr" "view1 w1' = (view1 w1)\<lparr>outgoing := outgoing (view1 w1) @ out\<rparr>"
      "carries ?fs out" by (auto simp: marked_message_frames)
  have cs: "?cs \<noteq> []" "concat ?cs = encode_utf8 s" "\<forall>p\<in>set ?cs. length p \<le> n"
    using assms(6,7) by (auto simp: chunks_eq_Nil_iff concat_chunks dest: chunks_length)
  have "absorbs R2 view2 I rdr out (rdr\<lparr>rs_decoder := rs_decoder rdr\<rparr>) [message.Text s] (pongs ?fs)"
    by (rule connection.absorbs_message [OF assms(2) cs(1) mixed_refl s(4) _ _ _ assms(13), where q = "encode_utf8 s"])
       (use cs assms(5,9,10,12) in \<open>auto simp: inflated_def ok_def from_frame_def dest!: message_frames_data\<close>)
  moreover have "pongs ?fs = []"
    by (auto simp: pongs_def filter_empty_conv dest!: message_frames_data)
  moreover have "incoming (view2 w2) = out @ rest" using assms(18) s(3) by simp
  ultimately show ?thesis
    using s(1,2) assms(15-17) by (auto elim!: absorbsE [where w = w2 and rest = rest])
qed

theorem large_data_delivered_witness:
  "\<exists>w1' w2'. send_large_data_fragmented sim_runtime stored_deflater [72, 105, 33] 2
         (zip_writer\<lparr>sw_config := small_config\<rparr>, sim_peer [])
       = (Returns (Inr ()), (zip_writer\<lparr>sw_config := small_config\<rparr>, w1'))
     \<and> polls sim_runtime stored_inflater (small_reader, sim_peer (sent w1')) (small_reader, w2')
     \<and> mailbox w2' = [Inr (message.Text [72, 105, 33])]"
proof -
  let ?s = "zip_writer\<lparr>sw_config := small_config\<rparr>"
  have u: "encode_utf8 [72, 105, 33] = [72, 105, 33]"
    by (simp add: encode_utf8_def encode_char_def byte_def)
  have limits: "\<not> deflate_enabled (sw_config ?s)" "valid_string [72, 105, 33]" "encode_utf8 [72, 105, 33] \<noteq> []"
    "0 < (2 :: nat)" "2 \<le> frame_limit (sw_config ?s)" "2 \<le> frame_limit (rs_config small_reader)"
    "(2 :: nat) < 2 ^ 64" "length (encode_utf8 [72, 105, 33]) \<le> message_limit (sw_config ?s)"
    "length (encode_utf8 [72, 105, 33]) \<le> message_limit (rs_config small_reader)"
    "fragmented small_reader = None"
    unfolding u by (simp_all add: small_reader_def new_read_stream_def small_config_def frame_limit_def
        message_limit_def deflate_enabled_def default_extensions_def valid_string_def is_scalar_def)
  obtain r sdr' w1' where s: "send_large_data_fragmented sim_runtime stored_deflater
      (encode_utf8 [72, 105, 33]) 2 (?s, sim_peer []) = (r, (sdr', w1'))" by (metis surj_pair)
  from large_data_delivered [OF sim_sink.byte_sink_axioms sim.connection_axioms _ limits s,
      of "sim_peer (outgoing (sim_view w1'))" "[]" stored_inflater] obtain w2' where
    "r = Returns (Inr ())" "sdr' = ?s"
    "polls sim_runtime stored_inflater (small_reader, sim_peer (outgoing (sim_view w1'))) (small_reader, w2')"
    "delivered (sim_view w2') = [Inr (message.Text [72, 105, 33])]" by auto
  with s show ?thesis unfolding u
    by (intro exI [of _ w1'] exI [of _ w2']) (simp add: sim_view_def)
qed

text \<open>
  \<^bold>\<open>C32.\<close> The other outcomes of \<open>send_large_data_fragmented\<close>: a fragment size above
  \<open>max_frame_size\<close> and data above \<open>max_message_size\<close> are refused, in this order, with
  nothing written; a fragment size of 0 passes both checks and panics (without compression);
  empty data is accepted and nothing at all is sent.
\<close>

theorem large_data_other_outcomes:
  "(frame_limit (sw_config self) < n \<longrightarrow>
      send_large_data_fragmented R C data n (self, w)
    = (Returns (Inl (CustomFragmentSizeExceeded n (frame_limit (sw_config self)))), (self, w)))
   \<and> (n \<le> frame_limit (sw_config self) \<and> message_limit (sw_config self) < length data \<longrightarrow>
      send_large_data_fragmented R C data n (self, w) = (Returns (Inl MaxMessageSize), (self, w)))
   \<and> (length data \<le> message_limit (sw_config self) \<and> \<not> deflate_enabled (sw_config self) \<longrightarrow>
      fst (send_large_data_fragmented R C data 0 (self, w)) = Panics)
   \<and> (0 < n \<and> n \<le> frame_limit (sw_config self) \<longrightarrow>
      send_large_data_fragmented R C [] n (self, w) = (Returns (Inr ()), (self, w)))"
  by (simp add: send_large_data_fragmented_def check_compression_def PAYLOAD_SIZE_COMPRESSION_ENABLE_def
      run Let_def)

theorem large_data_other_outcomes_witness:
  "fst (send_large_data_fragmented sim_runtime stored_deflater [1, 2] 9 (zip_writer, sim_peer []))
     = Returns (Inl (CustomFragmentSizeExceeded 9 8))
   \<and> fst (send_large_data_fragmented sim_runtime stored_deflater (replicate 21 0) 8 (zip_writer, sim_peer []))
     = Returns (Inl MaxMessageSize)
   \<and> fst (send_large_data_fragmented sim_runtime stored_deflater [1] 0
       (zip_writer\<lparr>sw_config := small_config\<rparr>, sim_peer [])) = Panics
   \<and> send_large_data_fragmented sim_runtime stored_deflater [] 4 (zip_writer, sim_peer [])
     = (Returns (Inr ()), (zip_writer, sim_peer []))"
  using large_data_other_outcomes [of zip_writer 9 sim_runtime stored_deflater "[1, 2]" "sim_peer []"]
    large_data_other_outcomes [of zip_writer 8 sim_runtime stored_deflater "replicate 21 0" "sim_peer []"]
    large_data_other_outcomes [of "zip_writer\<lparr>sw_config := small_config\<rparr>" 0 sim_runtime stored_deflater
      "[1]" "sim_peer []"]
    large_data_other_outcomes [of zip_writer 4 sim_runtime stored_deflater "[]" "sim_peer []"]
  by (simp add: zip_defs small_config_def default_extensions_def)

text \<open>
  With compression, \<open>send_large_data_fragmented\<close> compresses the data once and then
  sets RSV1 on every fragment, not only on the first as the comment in \<open>write_frames\<close> and
  RFC 7692 ask.
\<close>

lemma compressed_fragments_all_flagged:
  assumes "byte_sink R view" "writable (view w)" "0 < n" "n \<le> frame_limit (sw_config self)"
    and "length data \<le> message_limit (sw_config self)" "deflate_enabled (sw_config self)" "1 < length data"
    and "compress C data (sw_encoder self) = (Returns (Inr data'), enc)" "data' \<noteq> []"
  shows "\<exists>w' out. send_large_data_fragmented R C data n (self, w)
        = (Returns (Inr ()), (self\<lparr>sw_encoder := enc\<rparr>, w'))
      \<and> outgoing (view w') = outgoing (view w) @ out
      \<and> carries (marked True (message_frames True op_code.Text (chunks n data'))) out"
proof -
  have d: "deflated C self data True data' enc"
    using assms(6-9) by (simp add: deflated_def PAYLOAD_SIZE_COMPRESSION_ENABLE_def)
  from byte_sink.send_large_at [OF assms(1-5) d] obtain w' out where
    "send_large_data_fragmented R C data n (self, w) = (Returns (Inr ()), (self\<lparr>sw_encoder := enc\<rparr>, w'))"
    "view w' = (view w)\<lparr>outgoing := outgoing (view w) @ out\<rparr>"
    "carries (marked True (message_frames True op_code.Text (chunks n data'))) out" .
  then show ?thesis by (intro exI [of _ w'] exI [of _ out]) simp
qed

lemma compressed_fragments_all_flagged_witness:
  "\<exists>sdr' w' out. send_large_data_fragmented sim_runtime stored_deflater [72, 105] 8 (zip_writer, sim_peer [])
       = (Returns (Inr ()), (sdr', w'))
     \<and> sent w' = out
     \<and> carries [new_frame False op_code.Text [0, 1, 0, 254, 255, 72, 0, 1] True,
                new_frame True op_code.Continue [0, 254, 255, 105, 0] True] out"
proof -
  let ?z = "concat (map stored_block [72, 105]) @ [0]" and ?p = "[72, 105] :: bytes"
  have "stored_emits (compressor (sw_encoder zip_writer)) [] ?p (?z @ DEFLATE_TRAILER) (2, [])"
    by (simp add: stored_emits_def stored_stream_def zip_writer_def new_ws_writer_def)
       (rule exI [of _ ?p], simp)
  from stored_sink.compress_emits [OF _ this] obtain enc where
    z: "compress stored_deflater ?p (sw_encoder zip_writer) = (Returns (Inr ?z), enc)" by auto
  have "chunks 8 ?z = [[0, 1, 0, 254, 255, 72, 0, 1], [0, 254, 255, 105, 0]]"
    by (simp add: stored_block_def chunks.simps)
  with compressed_fragments_all_flagged [OF sim_sink.byte_sink_axioms _ _ _ _ _ _ z, of "sim_peer []" 8]
  show ?thesis
    by (auto simp: zip_defs default_extensions_def sim_view_def sim_peer_def)
qed

text \<open>
  \<^bold>\<open>C37.\<close> The crate's own reader does not accept such fragments: it decompresses a final
  continuation frame that carries RSV1 on its own, before it is appended, so when that
  fragment alone is not a valid compressed block the connection ends with an I/O error and
  the message is not delivered.
\<close>

theorem flagged_last_fragment_fails:
  assumes "connection R view" "punctual (view w)"
    and "incoming (view w) = wire_frame key True True op_code.Continue p @ rest"
    and "key_ok key" "length p \<le> frame_limit (rs_config self)" "length p < 2 ^ 64"
    and "deflate_enabled (rs_config self)" "decompress I p (rs_decoder self) = (Returns (Inl e), dec)"
  shows "\<exists>s'. poll_messages R I (self, w) = Some (Returns (Inl (IOError e)), s')
           \<and> delivered (view (snd s')) = delivered (view w)"
proof -
  have fits: "frame_fits (rs_config self) True True op_code.Continue (length p)"
    using assms(5-7) by (simp add: frame_fits_def)
  have "byte_source R view" using assms(1) by (simp add: connection_def)
  from byte_source.read_frame_any [OF this assms(2,3,4) fits, of I "Returns (Inl e)" dec] assms(8)
  obtain w' where r: "read_frame R I (self, w) = (Returns (Inl (IOError e)), (self\<lparr>rs_decoder := dec\<rparr>, w'))"
      "view w' = (view w)\<lparr>incoming := rest\<rparr>" by (auto simp: inflated_def read_outcome_def)
  then have "poll_once R I (self, w) = (Returns (Inl (IOError e)), (self\<lparr>rs_decoder := dec\<rparr>, w'))"
    by (simp add: poll_once_def run)
  with r(2) show ?thesis by (simp add: poll_messages_last)
qed

theorem flagged_last_fragment_fails_witness:
  "\<exists>s'. poll_messages sim_runtime stored_inflater
         (zip_reader\<lparr>fragmented := Some \<lparr>fragments = [0, 1, 0, 254, 255, 72, 0, 1],
            fm_op_code = op_code.Text, fm_compressed = True\<rparr>\<rparr>, sim_peer [0xC0, 5, 0, 254, 255, 105, 0])
       = Some (Returns (Inl (IOError InvalidInput)), s') \<and> mailbox (snd s') = []"
proof -
  let ?r = "zip_reader\<lparr>fragmented := Some \<lparr>fragments = [0, 1, 0, 254, 255, 72, 0, 1],
            fm_op_code = op_code.Text, fm_compressed = True\<rparr>\<rparr>"
  have w: "incoming (sim_view (sim_peer [0xC0, 5, 0, 254, 255, 105, 0]))
      = wire_frame None True True op_code.Continue [0, 254, 255, 105, 0] @ []"
    by (simp add: wire_frame_def head_byte_def as_u8_def length_field_def byte_def)
  obtain dec where d: "decompress stored_inflater [0, 254, 255, 105, 0] (rs_decoder ?r)
      = (Returns (Inl InvalidInput), dec)"
    by (simp add: decompress_def Let_def DEFLATE_TRAILER_def calculate_buffer_size_def zip_reader_def
        new_read_stream_def stored_inflater_def decompress_loop.simps)
  from flagged_last_fragment_fails [OF sim.connection_axioms _ w _ _ _ _ d] show ?thesis
    by (simp add: zip_defs default_extensions_def sim_view_def sim_peer_def comp_def list_all_iff)
qed



end
