(* ===== verification/Handshake.thy ===== *)
theory Handshake
  imports Request Sending
begin

text \<open>
  \<open>src/handshake.rs\<close> and \<open>src/utils.rs\<close>: the opening handshake of both sides, the connection
  it hands out and the reader task it spawns. SHA-1, base64, TCP and TLS are parameters.
  After the code: what a server answers and when, what a client accepts, and that the two
  agree.
\<close>

section \<open>Parameters\<close>

text \<open>The pure library functions the handshake uses.\<close>

record library =
  to_lowercase :: "rstring \<Rightarrow> rstring"
  sha1 :: "bytes \<Rightarrow> bytes"
  base64 :: "bytes \<Rightarrow> rstring"
  parse_url :: "rstring \<Rightarrow> parse_error + url"

text \<open>
  TCP and TLS: \<open>ca_certificates\<close> opens the CA file and lists what reading it as PEM yields;
  \<open>add_certificate\<close> is \<open>None\<close> for a certificate the store refuses.
\<close>

record ('w, 'cert, 'store, 'name) network =
  tcp_connect :: "rstring \<Rightarrow> ('w, io_error, unit) async"
  ca_certificates :: "rstring \<Rightarrow> ('w, io_error, (io_error + 'cert) list) async"
  empty_store :: 'store
  add_certificate :: "'cert \<Rightarrow> 'store \<Rightarrow> 'store option"
  add_webpki_roots :: "'store \<Rightarrow> 'store"
  server_name :: "rstring \<Rightarrow> invalid_dns_name_error + 'name"
  tls_connect :: "'store \<Rightarrow> 'name \<Rightarrow> ('w, io_error, unit) async"

section \<open>Keys (utils.rs)\<close>

definition UUID :: rstring where
  "UUID = lit ''258EAFA5-E914-47DA-95CA-C5AB0DC85B11''"

definition generate_websocket_accept_value :: "library \<Rightarrow> rstring \<Rightarrow> rstring" where
  "generate_websocket_accept_value L key = base64 L (sha1 L (encode_utf8 key @ encode_utf8 UUID))"

fun random_bytes :: "'w runtime \<Rightarrow> nat \<Rightarrow> ('w, error, bytes) async" where
  "random_bytes R 0 = ok []"
| "random_bytes R (Suc n) =
     await (draw_u8 R) (\<lambda>b. await (random_bytes R n) (\<lambda>bs. ok (b # bs)))"

definition generate_websocket_key :: "'w runtime \<Rightarrow> library \<Rightarrow> ('w, error, rstring) async" where
  "generate_websocket_key R L = await (random_bytes R 16) (\<lambda>bs. ok (base64 L bs))"

section \<open>Constants (handshake.rs)\<close>

definition HTTP_ACCEPT_RESPONSE :: rstring where
  "HTTP_ACCEPT_RESPONSE =
     lit ''HTTP/1.1 101 Switching Protocols'' @ crlf
     @ lit ''Connection: Upgrade'' @ crlf
     @ lit ''Upgrade: websocket'' @ crlf
     @ lit ''Sec-WebSocket-Accept: {}'' @ crlf"

definition HTTP_METHOD :: rstring where
  "HTTP_METHOD = lit ''GET''"

definition SEC_WEBSOCKET_KEY :: rstring where
  "SEC_WEBSOCKET_KEY = lit ''sec-websocket-key''"

definition SEC_WEBSOCKET_EXTENSIONS :: rstring where
  "SEC_WEBSOCKET_EXTENSIONS = lit ''sec-websocket-extensions''"

definition SEC_WEBSOCKET_ACCEPT :: rstring where
  "SEC_WEBSOCKET_ACCEPT = lit ''sec-websocket-accept''"

definition HOST :: rstring where
  "HOST = lit ''host''"

lemmas handshake_names =
  HTTP_METHOD_def SEC_WEBSOCKET_KEY_def SEC_WEBSOCKET_EXTENSIONS_def SEC_WEBSOCKET_ACCEPT_def HOST_def

section \<open>The two halves of the handshake (handshake.rs)\<close>

definition parse_handshake_server ::
  "'w runtime \<Rightarrow> 'w line_io \<Rightarrow> library \<Rightarrow> extensions option \<Rightarrow> ('w, error, extensions option) async" where
  "parse_handshake_server R H L server_extensions =
     await (parse_http_request R H (to_lowercase L)) (\<lambda>req.
     await (ensure (hr_method req = HTTP_METHOD) InvalidHTTPHandshake) (\<lambda>_.
     await (ensure (get_header_value req HOST \<noteq> None) NoHostHeaderPresent) (\<lambda>_.
     await (case get_header_value req SEC_WEBSOCKET_KEY of
              Some key \<Rightarrow> ok key | None \<Rightarrow> err NoSecWebsocketKey) (\<lambda>sec_websocket_key.
     let client_extensions =
           parse_extensions (unwrap_or [] (get_header_value req SEC_WEBSOCKET_EXTENSIONS));
         agreed_extensions = merge_extensions server_extensions client_extensions;
         accept_key = generate_websocket_accept_value L sec_websocket_key;
         response = add_extension_headers
           (replace_all (lit ''{}'') accept_key HTTP_ACCEPT_RESPONSE) agreed_extensions in
     await (map_err IOError (write_all R (encode_utf8 response))) (\<lambda>_.
     await (map_err IOError (flush H)) (\<lambda>_.
     ok agreed_extensions))))))"

definition parse_handshake_client ::
  "'w runtime \<Rightarrow> 'w line_io \<Rightarrow> library \<Rightarrow> rstring \<Rightarrow> ('w, error, extensions option) async" where
  "parse_handshake_client R H L client_websocket_key =
     await (parse_http_request R H (to_lowercase L)) (\<lambda>req.
     let expected_accept_value = generate_websocket_accept_value L client_websocket_key;
         sec_websocket_accept = unwrap_or [] (get_header_value req SEC_WEBSOCKET_ACCEPT) in
     await (ensure (contains sec_websocket_accept expected_accept_value) InvalidAcceptKey) (\<lambda>_.
     ok (parse_extensions (unwrap_or [] (get_header_value req SEC_WEBSOCKET_EXTENSIONS)))))"

section \<open>The connection\<close>

text \<open>
  What the user gets: the writer and the receiving end of the channel.
  \<open>second_stage_handshake\<close> also returns the \<open>ReadStream\<close> that the spawned task owns; reader
  and writer share the socket writer.
\<close>

record 'c ws_connection =
  conn_writer :: "'c ws_writer"
  conn_reader :: ws_reader

definition new_ws_connection :: "'c ws_writer \<Rightarrow> ws_reader \<Rightarrow> 'c ws_connection" where
  "new_ws_connection wtr rdr = \<lparr>conn_writer = wtr, conn_reader = rdr\<rparr>"

definition second_stage_handshake ::
  "writer_kind \<Rightarrow> web_socket_config \<Rightarrow> 'd decoder \<Rightarrow> 'c encoder \<Rightarrow> 'c ws_connection \<times> 'd read_stream" where
  "second_stage_handshake k config dec enc =
     (new_ws_connection (new_ws_writer \<lparr>kind = k\<rparr> config enc) (new_ws_reader ReceiverStream),
      new_read_stream \<lparr>kind = k\<rparr> config dec)"

text \<open>The spawned task: an error that ends the loop is sent to the user as the last item.\<close>

definition reader_task ::
  "'w runtime \<Rightarrow> 'd inflater \<Rightarrow> 'd read_stream \<times> 'w \<Rightarrow> unit outcome \<times> ('d read_stream \<times> 'w)" where
  "reader_task R I s =
     (case poll_messages R I s of
        None \<Rightarrow> (Hangs, s)
      | Some (Returns (Inr _), s') \<Rightarrow> (Returns (), s')
      | Some (Returns (Inl e), (self, w)) \<Rightarrow>
          (case channel_send R (Inl e) w of
             (Returns _, w') \<Rightarrow> (Returns (), (self, w'))
           | (Hangs, w') \<Rightarrow> (Hangs, (self, w'))
           | (Panics, w') \<Rightarrow> (Panics, (self, w')))
      | Some (Hangs, s') \<Rightarrow> (Hangs, s')
      | Some (Panics, s') \<Rightarrow> (Panics, s'))"

text \<open>A constructor that may panic.\<close>

definition or_panic :: "'a option \<Rightarrow> ('s, 'e, 'a) async" where
  "or_panic x = (case x of Some v \<Rightarrow> ok v | None \<Rightarrow> panic)"

section \<open>Server\<close>

definition accept_async_with_config ::
  "'w runtime \<Rightarrow> 'w line_io \<Rightarrow> library \<Rightarrow> 'd inflater \<Rightarrow> 'c deflater \<Rightarrow> web_socket_config option
     \<Rightarrow> ('w, error, 'c ws_connection \<times> 'd read_stream) async" where
  "accept_async_with_config R H L I C config_option =
     (let config = unwrap_or default_web_socket_config config_option in
      await (parse_handshake_server R H L (ws_extensions config)) (\<lambda>parsed_extensions.
      let config = config\<lparr>ws_extensions := parsed_extensions\<rparr>;
          exts = unwrap_or default_extensions parsed_extensions in
      await (or_panic (new_decoder I (unwrap_or False (client_no_context_takeover exts))
                         (client_max_window_bits exts))) (\<lambda>dec.
      await (or_panic (new_encoder C (unwrap_or False (server_no_context_takeover exts))
                         (server_max_window_bits exts))) (\<lambda>enc.
      ok (second_stage_handshake Server config dec enc)))))"

definition accept_async ::
  "'w runtime \<Rightarrow> 'w line_io \<Rightarrow> library \<Rightarrow> 'd inflater \<Rightarrow> 'c deflater
     \<Rightarrow> ('w, error, 'c ws_connection \<times> 'd read_stream) async" where
  "accept_async R H L I C = accept_async_with_config R H L I C None"

section \<open>Client\<close>

fun add_certificates ::
  "('w, 'cert, 'store, 'name) network \<Rightarrow> (io_error + 'cert) list \<Rightarrow> 'store \<Rightarrow> ('w, error, 'store) async" where
  "add_certificates N [] store = ok store"
| "add_certificates N (Inl e # certs) store = err (IOError e)"
| "add_certificates N (Inr cert # certs) store =
     await (or_panic (add_certificate N cert store)) (add_certificates N certs)"

definition connect_tls ::
  "('w, 'cert, 'store, 'name) network \<Rightarrow> rstring option \<Rightarrow> rstring \<Rightarrow> ('w, error, unit) async" where
  "connect_tls N maybe_ca_file host =
     await (case maybe_ca_file of
              Some file \<Rightarrow>
                await (map_err IOError (ca_certificates N file)) (\<lambda>certs.
                  add_certificates N certs (empty_store N))
            | None \<Rightarrow> ok (add_webpki_roots N (empty_store N))) (\<lambda>root_cert_store.
     await (case server_name N host of
              Inr domain \<Rightarrow> ok domain | Inl e \<Rightarrow> err (DomainError e)) (\<lambda>domain.
     map_err IOError (tls_connect N root_cert_store domain)))"

definition connect_async_with_config ::
  "'w runtime \<Rightarrow> 'w line_io \<Rightarrow> library \<Rightarrow> ('w, 'cert, 'store, 'name) network \<Rightarrow> 'd inflater
     \<Rightarrow> 'c deflater \<Rightarrow> rstring \<Rightarrow> client_config option
     \<Rightarrow> ('w, error, 'c ws_connection \<times> 'd read_stream) async" where
  "connect_async_with_config R H L N I C addr config_option =
     await (generate_websocket_key R L) (\<lambda>client_websocket_key.
     let ccfg = unwrap_or default_client_config config_option;
         client_extensions = ws_extensions (client_web_socket_config ccfg) in
     await (of_result (construct_http_request (parse_url L) addr client_websocket_key client_extensions))
       (\<lambda>(request, hostname, host, use_tls).
     await (map_err IOError (tcp_connect N hostname)) (\<lambda>_.
     await (if use_tls then connect_tls N (ca_file ccfg) host else ok ()) (\<lambda>_.
     await (map_err IOError (write_all R (encode_utf8 request))) (\<lambda>_.
     await (parse_handshake_client R H L client_websocket_key) (\<lambda>parsed_extensions.
     let config = (client_web_socket_config ccfg)\<lparr>ws_extensions := parsed_extensions\<rparr>;
         exts = unwrap_or default_extensions parsed_extensions in
     await (or_panic (new_decoder I (unwrap_or False (client_no_context_takeover exts))
                        (client_max_window_bits exts))) (\<lambda>dec.
     await (or_panic (new_encoder C (unwrap_or False (server_no_context_takeover exts))
                        (server_max_window_bits exts))) (\<lambda>enc.
     ok (second_stage_handshake Client config dec enc)))))))))"

definition connect_async ::
  "'w runtime \<Rightarrow> 'w line_io \<Rightarrow> library \<Rightarrow> ('w, 'cert, 'store, 'name) network \<Rightarrow> 'd inflater
     \<Rightarrow> 'c deflater \<Rightarrow> rstring \<Rightarrow> ('w, error, 'c ws_connection \<times> 'd read_stream) async" where
  "connect_async R H L N I C addr = connect_async_with_config R H L N I C addr None"

section \<open>What the handshake relies on\<close>

text \<open>
  The documented behaviour of the libraries: base64 text is made of visible ASCII characters
  and is empty only for no input, a SHA-1 digest has 20 bytes.
\<close>

locale handshake_library = lowercase "to_lowercase L" + url_library "parse_url L" for L :: library +
  assumes base64_visible: "visible (base64 L bs)"
    and base64_nonempty: "bs \<noteq> [] \<Longrightarrow> base64 L bs \<noteq> []"
    and sha1_length: "length (sha1 L bs) = 20"
begin

lemma accept_value: "visible (generate_websocket_accept_value L key)"
  "generate_websocket_accept_value L key \<noteq> []"
proof -
  have "sha1 L bs \<noteq> []" for bs using sha1_length [of bs] by auto
  then show "visible (generate_websocket_accept_value L key)"
    "generate_websocket_accept_value L key \<noteq> []"
    by (simp_all add: generate_websocket_accept_value_def base64_visible base64_nonempty)
qed

end

section \<open>The server's answer\<close>

text \<open>A request the server answers, what it agrees to and the text it answers with.\<close>

definition valid_upgrade :: "http_request \<Rightarrow> bool" where
  "valid_upgrade req \<longleftrightarrow>
     hr_method req = HTTP_METHOD \<and> hr_headers req HOST \<noteq> None \<and> hr_headers req SEC_WEBSOCKET_KEY \<noteq> None"

definition offered :: "http_request \<Rightarrow> extensions option" where
  "offered req = parse_extensions (unwrap_or [] (hr_headers req SEC_WEBSOCKET_EXTENSIONS))"

definition server_headers :: "library \<Rightarrow> rstring \<Rightarrow> extensions option \<Rightarrow> (rstring \<times> rstring) list" where
  "server_headers L key agreed =
     [(lit ''Connection'', lit ''Upgrade''), (lit ''Upgrade'', lit ''websocket''),
      (lit ''Sec-WebSocket-Accept'', generate_websocket_accept_value L key)] @ extension_headers agreed"

definition server_response :: "library \<Rightarrow> rstring \<Rightarrow> extensions option \<Rightarrow> rstring" where
  "server_response L key agreed =
     http_head (lit ''HTTP/1.1 101 Switching Protocols'') (server_headers L key agreed) @ extra_crlf agreed"

lemma accept_response:
  "replace_all (lit ''{}'') k HTTP_ACCEPT_RESPONSE
   = joined [lit ''HTTP/1.1 101 Switching Protocols'', lit ''Connection: Upgrade'',
             lit ''Upgrade: websocket'', lit ''Sec-WebSocket-Accept: '' @ k]"
  by (simp add: HTTP_ACCEPT_RESPONSE_def replace_all.simps)

lemma server_response_eq:
  "add_extension_headers
     (replace_all (lit ''{}'') (generate_websocket_accept_value L key) HTTP_ACCEPT_RESPONSE) agreed
   = server_response L key agreed"
  unfolding accept_response add_extension_headers_joined
  by (simp add: server_response_def http_head_def server_headers_def header_line_def)

context line_source
begin

lemma write_response:
  assumes "writable (view w)"
  shows "\<exists>w'. await (map_err IOError (write_all R bs)) (\<lambda>_. await (map_err IOError (flush H)) (\<lambda>_. ok x)) w
      = (Returns (Inr x), w') \<and> view w' = (view w)\<lparr>outgoing := outgoing (view w) @ bs\<rparr>"
proof -
  let ?w = "snd (write_all R bs w)"
  note v = write_all_view [OF assms, of bs]
  then have "writable (view ?w)" using assms by simp
  with write_all_ok [OF assms, of bs] flush_ok [of ?w] flush_view [of ?w] v show ?thesis
    by (intro exI [of _ "snd (flush H ?w)"]) (simp add: run)
qed

end

text \<open>What the server does, by what it read.\<close>

lemma parse_handshake_server_error:
  "parse_http_request R H (to_lowercase L) w = (Returns (Inl e), w1) \<Longrightarrow>
     parse_handshake_server R H L sexts w = (Returns (Inl e), w1)"
  by (simp add: parse_handshake_server_def run)

lemma parse_handshake_server_invalid:
  assumes "parse_http_request R H (to_lowercase L) w = (Returns (Inr req), w1)" "\<not> valid_upgrade req"
  shows "parse_handshake_server R H L sexts w
    = (Returns (Inl (if hr_method req \<noteq> HTTP_METHOD then InvalidHTTPHandshake
                     else if hr_headers req HOST = None then NoHostHeaderPresent
                     else NoSecWebsocketKey)), w1)"
  using assms by (auto simp: parse_handshake_server_def valid_upgrade_def get_header_value_def run)

lemma parse_handshake_server_valid:
  assumes "line_source R view H"
    and "parse_http_request R H (to_lowercase L) w = (Returns (Inr req), w1)" "valid_upgrade req"
    and "writable (view w1)" "agreed = merge_extensions sexts (offered req)"
  shows "\<exists>w'. parse_handshake_server R H L sexts w = (Returns (Inr agreed), w')
    \<and> view w' = (view w1)\<lparr>outgoing := outgoing (view w1)
          @ encode_utf8 (server_response L (the (hr_headers req SEC_WEBSOCKET_KEY)) agreed)\<rparr>"
proof -
  obtain key where key: "hr_headers req SEC_WEBSOCKET_KEY = Some key"
    using assms(3) by (auto simp: valid_upgrade_def)
  from line_source.write_response [OF assms(1,4), of "encode_utf8 (server_response L key agreed)" agreed]
  show ?thesis
    using assms(2,3,5) key
    by (auto simp: parse_handshake_server_def valid_upgrade_def get_header_value_def run Let_def
        offered_def server_response_eq simp del: lit_simps)
qed

section \<open>What the client makes of it\<close>

lemma parse_handshake_client_run:
  assumes "parse_http_request R H (to_lowercase L) w = (Returns (Inr req), w1)"
  shows "parse_handshake_client R H L key w
    = (if contains (unwrap_or [] (hr_headers req SEC_WEBSOCKET_ACCEPT)) (generate_websocket_accept_value L key)
       then (Returns (Inr (offered req)), w1) else (Returns (Inl InvalidAcceptKey), w1))"
  using assms by (simp add: parse_handshake_client_def get_header_value_def run Let_def offered_def)

text \<open>What the other side's \<open>parse_extensions\<close> sees of a configuration.\<close>

definition seen :: "extensions option \<Rightarrow> extensions option" where
  "seen exts =
     (case exts of Some e \<Rightarrow> if permessage_deflate e then Some (advertised e) else None | None \<Rightarrow> None)"

lemma parse_no_extensions [simp]: "parse_extensions [] = None"
  by (simp add: parse_extensions_def parse_part_def extension_names trim_def default_extensions_def)

lemma offered_seen:
  assumes "hr_headers req (lit ''sec-websocket-extensions'')
    = (case exts of Some e \<Rightarrow> if permessage_deflate e then Some (extension_value e) else None | None \<Rightarrow> None)"
  shows "offered req = seen exts"
  using assms unfolding offered_def SEC_WEBSOCKET_EXTENSIONS_def seen_def
  by (simp del: lit_simps add: parse_extension_value split: option.split)

text \<open>What a server agrees to has flags the other side sees as they are.\<close>

lemma seen_merge: "seen (merge_extensions sexts (seen cexts))
    = (case merge_extensions sexts (seen cexts) of
         Some e \<Rightarrow> if permessage_deflate e then Some e else None | None \<Rightarrow> None)"
  by (auto simp: seen_def merge_extensions_def advertised_def option_and_def split: option.splits if_splits)

context handshake_library
begin

lemma server_headers_ok: "list_all header_ok (server_headers L key agreed)"
proof -
  have "header_ok (lit ''Sec-WebSocket-Accept'', generate_websocket_accept_value L key)"
    by (rule header_ok_visible) (simp_all add: accept_value, simp_all add: visible_def)
  moreover have "header_ok (lit ''Connection'', lit ''Upgrade'')" "header_ok (lit ''Upgrade'', lit ''websocket'')"
    by (intro header_ok_visible; simp add: visible_def)+
  ultimately show ?thesis
    using extension_value_header
    by (simp add: server_headers_def extension_headers_def del: lit_simps split: option.split)
qed

lemma server_headers_lookup:
  "headers_of (to_lowercase L) (server_headers L key agreed) (lit ''sec-websocket-accept'')
   = Some (generate_websocket_accept_value L key)"
  "headers_of (to_lowercase L) (server_headers L key agreed) (lit ''sec-websocket-extensions'')
   = (case agreed of Some e \<Rightarrow> if permessage_deflate e then Some (extension_value e) else None | None \<Rightarrow> None)"
  by (simp_all add: headers_of_def server_headers_def extension_headers_def lower_names [simplified]
      split: option.split)

lemma client_reads_response:
  assumes "line_source R view H" "punctual (view w)"
    and "incoming (view w) = encode_utf8 (server_response L key agreed) @ rest"
  shows "\<exists>w'. parse_handshake_client R H L key w = (Returns (Inr (seen agreed)), w')
    \<and> view w' = (view w)\<lparr>incoming := encode_utf8 (extra_crlf agreed) @ rest\<rparr>"
proof -
  let ?rl = "lit ''HTTP/1.1 101 Switching Protocols''"
  have rl: "is_line ?rl" "valid_string ?rl" by (simp_all add: is_line_def is_scalar_def)
  have sw: "split_whitespace ?rl = [lit ''HTTP/1.1'', lit ''101'', lit ''Switching'', lit ''Protocols'']"
    by (simp add: split_whitespace_def is_whitespace_def)
  have inc: "incoming (view w) = encode_utf8 (http_head ?rl (server_headers L key agreed))
      @ encode_utf8 (extra_crlf agreed) @ rest"
    using assms(3) by (simp add: server_response_def del: lit_simps)
  define req where "req = \<lparr>hr_method = lit ''HTTP/1.1'', hr_uri = lit ''101'',
      hr_version = lit ''Switching'', hr_headers = headers_of (to_lowercase L) (server_headers L key agreed),
      hr_body = []\<rparr>"
  note parsed = head_parsed [OF assms(1) lowercase_axioms, OF assms(2) inc rl server_headers_ok sw]
  obtain w' where w': "parse_http_request R H (to_lowercase L) w = (Returns (Inr req), w')"
    "view w' = (view w)\<lparr>incoming := encode_utf8 (extra_crlf agreed) @ rest\<rparr>"
    using parsed unfolding req_def by blast
  have "offered req = seen agreed"
    by (rule offered_seen) (simp add: req_def server_headers_lookup del: lit_simps)
  moreover have "hr_headers req SEC_WEBSOCKET_ACCEPT = Some (generate_websocket_accept_value L key)"
    by (simp add: req_def SEC_WEBSOCKET_ACCEPT_def server_headers_lookup del: lit_simps)
  ultimately show ?thesis
    using w' by (simp add: parse_handshake_client_run)
qed

end

section \<open>Both sides together\<close>

text \<open>\<open>requests L addr key exts request\<close>: the client's request to a \<open>ws\<close> or \<open>wss\<close> URL with a host.\<close>

definition requests :: "library \<Rightarrow> rstring \<Rightarrow> rstring \<Rightarrow> extensions option \<Rightarrow> rstring \<Rightarrow> bool" where
  "requests L addr key exts request \<longleftrightarrow>
     visible key \<and> key \<noteq> []
     \<and> (\<exists>u host address use_tls. parse_url L addr = Inr u \<and> url_host u = Some host
          \<and> (url_scheme u = lit ''ws'' \<or> url_scheme u = lit ''wss'')
          \<and> construct_http_request (parse_url L) addr key exts = Inr (request, address, host, use_tls))"

context handshake_library
begin

lemma server_answers_client:
  assumes "line_source R view H" "requests L addr key cexts request"
    and "punctual (view w)" "writable (view w)" "incoming (view w) = encode_utf8 request @ rest"
    and "agreed = merge_extensions sexts (seen cexts)"
  shows "\<exists>w'. parse_handshake_server R H L sexts w = (Returns (Inr agreed), w')
    \<and> view w' = (view w)\<lparr>incoming := encode_utf8 (extra_crlf cexts) @ rest,
          outgoing := outgoing (view w) @ encode_utf8 (server_response L key agreed)\<rparr>"
proof -
  from assms(2) obtain u host address use_tls where q: "visible key" "key \<noteq> []"
    "parse_url L addr = Inr u" "url_host u = Some host"
    "url_scheme u = lit ''ws'' \<or> url_scheme u = lit ''wss''"
    "construct_http_request (parse_url L) addr key cexts = Inr (request, address, host, use_tls)"
    unfolding requests_def by blast
  note r = client_request_read [where url_parse = "parse_url L", OF url_library_axioms q(3,4,5,1,2,6),
      OF assms(1) lowercase_axioms, OF assms(3,5)]
  then obtain req w1 where req: "parse_http_request R H (to_lowercase L) w = (Returns (Inr req), w1)"
    "view w1 = (view w)\<lparr>incoming := encode_utf8 (extra_crlf cexts) @ rest\<rparr>" "hr_method req = HTTP_METHOD"
    "hr_headers req HOST = Some (host_field u host)" "hr_headers req SEC_WEBSOCKET_KEY = Some key"
    "hr_headers req (lit ''sec-websocket-extensions'')
      = (case cexts of Some e \<Rightarrow> if permessage_deflate e then Some (extension_value e) else None | None \<Rightarrow> None)"
    unfolding HTTP_METHOD_def HOST_def SEC_WEBSOCKET_KEY_def by blast
  have "valid_upgrade req" using req(3-5) by (simp add: valid_upgrade_def)
  from parse_handshake_server_valid [OF assms(1) req(1) this _ refl, of sexts] req(2,5) assms(4,6)
    offered_seen [OF req(6)]
  show ?thesis by auto
qed

end

text \<open>A key the client draws is fit for a header.\<close>

context byte_sink
begin

lemma random_bytes_run:
  "\<exists>bs w'. random_bytes R n w = (Returns (Inr bs), w') \<and> length bs = n \<and> view w' = view w"
proof (induction n arbitrary: w)
  case 0
  then show ?case by (simp add: ok_def)
next
  case (Suc n)
  from Suc.IH [of "snd (random_u8 R w)"] random_view [of w] show ?case
    by (auto simp: run draw_u8_def)
qed

end

lemma generate_key_run:
  assumes "byte_sink R view" "handshake_library L"
  obtains key w' where "generate_websocket_key R L w = (Returns (Inr key), w')" "visible key" "key \<noteq> []"
    "view w' = view w"
proof -
  obtain bs w' where b: "random_bytes R 16 w = (Returns (Inr bs), w')" "length bs = 16" "view w' = view w"
    using byte_sink.random_bytes_run [OF assms(1)] by blast
  then have "bs \<noteq> []" by auto
  with handshake_library.base64_nonempty [OF assms(2)] handshake_library.base64_visible [OF assms(2)]
    b that [of "base64 L bs" w'] show ?thesis
    by (simp add: generate_websocket_key_def run)
qed

text \<open>
  The client up to its request: it depends on nothing the server does. \<open>answered\<close> is the rest
  of \<open>connect_async_with_config\<close>, from the response on.
\<close>

definition answered ::
  "'w runtime \<Rightarrow> 'w line_io \<Rightarrow> library \<Rightarrow> 'd inflater \<Rightarrow> 'c deflater \<Rightarrow> web_socket_config \<Rightarrow> rstring
     \<Rightarrow> ('w, error, 'c ws_connection \<times> 'd read_stream) async" where
  "answered R H L I C config key =
     await (parse_handshake_client R H L key) (\<lambda>agreed.
     let exts = unwrap_or default_extensions agreed in
     await (or_panic (new_decoder I (unwrap_or False (client_no_context_takeover exts))
                        (client_max_window_bits exts))) (\<lambda>dec.
     await (or_panic (new_encoder C (unwrap_or False (server_no_context_takeover exts))
                        (server_max_window_bits exts))) (\<lambda>enc.
     ok (second_stage_handshake Client (config\<lparr>ws_extensions := agreed\<rparr>) dec enc))))"

text \<open>A reachable peer: connecting succeeds and the connection is ready for use.\<close>

definition reachable :: "('w \<Rightarrow> link) \<Rightarrow> ('w, 'cert, 'store, 'name) network \<Rightarrow> bool" where
  "reachable view N \<longleftrightarrow>
     (\<forall>a w. fst (tcp_connect N a w) = Returns (Inr ()) \<and> view (snd (tcp_connect N a w)) = view w)"

lemma connect_from_key:
  assumes "line_source R view H" "reachable view N" "writable (view w)"
    and "generate_websocket_key R L w = (Returns (Inr key), wk)" "view wk = view w"
    and "ccfg = client_web_socket_config (unwrap_or default_client_config config_option)"
    and "construct_http_request (parse_url L) addr key (ws_extensions ccfg) = Inr (request, address, host, False)"
  shows "\<exists>w1. connect_async_with_config R H L N I C addr config_option w = answered R H L I C ccfg key w1
    \<and> view w1 = (view w)\<lparr>outgoing := outgoing (view w) @ encode_utf8 request\<rparr>"
proof -
  have sink: "byte_sink R view" using assms(1) by (simp add: line_source_def)
  let ?wt = "snd (tcp_connect N address wk)"
  have t: "fst (tcp_connect N address wk) = Returns (Inr ())" "view ?wt = view w"
    using assms(2,5) by (simp_all add: reachable_def)
  then have wt: "writable (view ?wt)" using assms(3) by simp
  have "connect_async_with_config R H L N I C addr config_option w
      = answered R H L I C ccfg key (snd (write_all R (encode_utf8 request) ?wt))"
    using assms(4,6,7) t byte_sink.write_all_ok [OF sink wt]
    by (simp add: connect_async_with_config_def answered_def run Let_def)
  with byte_sink.write_all_view [OF sink wt] t(2) show ?thesis
    by (intro exI [of _ "snd (write_all R (encode_utf8 request) ?wt)"]) simp
qed

lemma request_for_key:
  assumes "parse_url L addr = Inr u" "url_host u = Some host" "url_scheme u = lit ''ws''"
    and "visible key" "key \<noteq> []"
  obtains request address where "requests L addr key exts request"
    "construct_http_request (parse_url L) addr key exts = Inr (request, address, host, False)"
proof -
  from assms(3) have ws: "url_scheme u = lit ''ws'' \<or> url_scheme u = lit ''wss''"
    "url_scheme u \<noteq> lit ''wss''" by simp_all
  obtain request address where c: "construct_http_request (parse_url L) addr key exts
      = Inr (request, address, host, False)"
    using construct_http_request_head [where url_parse = "parse_url L", OF assms(1) ws(1) assms(2), of key exts]
      ws(2) by auto
  then have "requests L addr key exts request"
    using assms(1,2,4,5) ws(1) unfolding requests_def by blast
  with c show ?thesis by (rule that [rotated])
qed

lemma connect_requests:
  assumes "line_source R view H" "handshake_library L" "reachable view N" "writable (view w)"
    and "parse_url L addr = Inr u" "url_host u = Some host" "url_scheme u = lit ''ws''"
    and "ccfg = client_web_socket_config (unwrap_or default_client_config config_option)"
  obtains key request w1 where "requests L addr key (ws_extensions ccfg) request"
    "connect_async_with_config R H L N I C addr config_option w = answered R H L I C ccfg key w1"
    "view w1 = (view w)\<lparr>outgoing := outgoing (view w) @ encode_utf8 request\<rparr>"
proof -
  have sink: "byte_sink R view" using assms(1) by (simp add: line_source_def)
  obtain key wk where k: "generate_websocket_key R L w = (Returns (Inr key), wk)" "visible key" "key \<noteq> []"
    "view wk = view w"
    by (rule generate_key_run [OF sink assms(2)])
  obtain request address where r: "requests L addr key (ws_extensions ccfg) request"
    "construct_http_request (parse_url L) addr key (ws_extensions ccfg) = Inr (request, address, host, False)"
    by (rule request_for_key [OF assms(5-7) k(2,3)])
  show ?thesis
    using connect_from_key [OF assms(1,3,4) k(1,4) assms(8) r(2)] that [OF r(1)] by blast
qed

lemma or_panic_state [simp]: "snd (or_panic x s) = s"
  by (cases x) (simp_all add: or_panic_def run)

lemma snd_await: "(\<And>x s. snd (f x s) = s) \<Longrightarrow> snd (await m f s) = snd (m s)"
  by (auto simp: await_def split: outcome.split sum.split)

lemma answered_state:
  "snd (answered R H L I C config key w) = snd (parse_http_request R H (to_lowercase L) w)"
  by (simp add: answered_def parse_handshake_client_def snd_await Let_def run)

lemma answered_frame:
  "line_source R view H \<Longrightarrow> handshake_library L \<Longrightarrow>
     only_input (view w) (view (snd (answered R H L I C config key w)))"
  using parse_http_request_frame [of R view H "to_lowercase L" w]
  by (simp add: answered_state handshake_library_def)

text \<open>A configuration whose extensions, if it has any, ask for compression.\<close>

definition enabling :: "web_socket_config \<Rightarrow> bool" where
  "enabling config \<longleftrightarrow> (\<forall>e. ws_extensions config = Some e \<longrightarrow> permessage_deflate e)"

definition agreement :: "web_socket_config \<Rightarrow> web_socket_config \<Rightarrow> extensions option" where
  "agreement scfg ccfg = merge_extensions (ws_extensions scfg) (seen (ws_extensions ccfg))"

lemma enabling_agreement:
  assumes "enabling scfg"
  shows "seen (agreement scfg ccfg) = agreement scfg ccfg" "extra_crlf (agreement scfg ccfg) = []"
proof -
  have "permessage_deflate e" if "agreement scfg ccfg = Some e" for e
    using assms that
    by (auto simp: agreement_def enabling_def merge_extensions_def seen_def advertised_def
        split: option.splits if_splits)
  then show "seen (agreement scfg ccfg) = agreement scfg ccfg" "extra_crlf (agreement scfg ccfg) = []"
    by (auto simp: agreement_def seen_merge extra_crlf_def split: option.split)
qed

lemma enabling_extra: "enabling config \<Longrightarrow> extra_crlf (ws_extensions config) = []"
  by (auto simp: enabling_def extra_crlf_def split: option.split)

text \<open>The codecs of an agreed parameter set, as both sides build them.\<close>

definition codecs ::
  "'d inflater \<Rightarrow> 'c deflater \<Rightarrow> extensions option \<Rightarrow> 'd decoder \<Rightarrow> 'c encoder \<Rightarrow> bool" where
  "codecs I C agreed dec enc \<longleftrightarrow>
     (let exts = unwrap_or default_extensions agreed in
      new_decoder I (unwrap_or False (client_no_context_takeover exts)) (client_max_window_bits exts) = Some dec
      \<and> new_encoder C (unwrap_or False (server_no_context_takeover exts)) (server_max_window_bits exts) = Some enc)"

lemma answered_run:
  assumes "line_source R view H" "handshake_library L" "punctual (view w)"
    and "incoming (view w) = encode_utf8 (server_response L key agreed) @ rest" "codecs I C (seen agreed) dec enc"
  shows "\<exists>w'. answered R H L I C config key w
      = (Returns (Inr (second_stage_handshake Client (config\<lparr>ws_extensions := seen agreed\<rparr>) dec enc)), w')
    \<and> view w' = (view w)\<lparr>incoming := encode_utf8 (extra_crlf agreed) @ rest\<rparr>"
  using handshake_library.client_reads_response [OF assms(2,1,3,4)] assms(5)
  by (auto simp: answered_def codecs_def run or_panic_def Let_def)

lemma accept_run:
  assumes "line_source R view H" "handshake_library L" "requests L addr key (ws_extensions ccfg) request"
    and "punctual (view w)" "writable (view w)" "incoming (view w) = encode_utf8 request @ rest"
    and "scfg = unwrap_or default_web_socket_config server_option" "codecs I C (agreement scfg ccfg) dec enc"
  shows "\<exists>w'. accept_async_with_config R H L I C server_option w
      = (Returns (Inr (second_stage_handshake Server (scfg\<lparr>ws_extensions := agreement scfg ccfg\<rparr>) dec enc)), w')
    \<and> view w' = (view w)\<lparr>incoming := encode_utf8 (extra_crlf (ws_extensions ccfg)) @ rest,
          outgoing := outgoing (view w) @ encode_utf8 (server_response L key (agreement scfg ccfg))\<rparr>"
  using handshake_library.server_answers_client [OF assms(2,1,3-6) refl, of "ws_extensions scfg"] assms(7,8)
  by (auto simp: accept_async_with_config_def agreement_def codecs_def run or_panic_def Let_def)

text \<open>The whole handshake, each side reading what the other writes.\<close>

lemma handshake_run:
  assumes "handshake_library L" "line_source Rc viewc Hc" "line_source Rs views Hs" "reachable viewc N"
    and "parse_url L addr = Inr u" "url_host u = Some host" "url_scheme u = lit ''ws''"
    and "ccfg = client_web_socket_config (unwrap_or default_client_config client_option)"
    and "scfg = unwrap_or default_web_socket_config server_option" "enabling ccfg" "enabling scfg"
    and "codecs I C (agreement scfg ccfg) dec enc"
    and "punctual (viewc wc)" "writable (viewc wc)" "punctual (views ws)" "writable (views ws)"
    and "connect_async_with_config Rc Hc L N I C addr client_option wc = (rc, wc')"
    and "accept_async_with_config Rs Hs L I C server_option ws = (rs, ws')"
    and "incoming (views ws) = drop (length (outgoing (viewc wc))) (outgoing (viewc wc')) @ later_s"
    and "incoming (viewc wc) = drop (length (outgoing (views ws))) (outgoing (views ws')) @ later_c"
  shows "rc = Returns (Inr (second_stage_handshake Client
             (ccfg\<lparr>ws_extensions := agreement scfg ccfg\<rparr>) dec enc))
    \<and> rs = Returns (Inr (second_stage_handshake Server
             (scfg\<lparr>ws_extensions := agreement scfg ccfg\<rparr>) dec enc))
    \<and> (\<exists>request. viewc wc' = (viewc wc)\<lparr>incoming := later_c, outgoing := outgoing (viewc wc) @ request\<rparr>)
    \<and> (\<exists>response. views ws' = (views ws)\<lparr>incoming := later_s, outgoing := outgoing (views ws) @ response\<rparr>)"
proof -
  obtain key request w1 where c: "requests L addr key (ws_extensions ccfg) request"
    "connect_async_with_config Rc Hc L N I C addr client_option wc = answered Rc Hc L I C ccfg key w1"
    "viewc w1 = (viewc wc)\<lparr>outgoing := outgoing (viewc wc) @ encode_utf8 request\<rparr>"
    by (rule connect_requests [OF assms(2,1,4,14,5-8)])
  have wc': "wc' = snd (answered Rc Hc L I C ccfg key w1)"
    using c(2) assms(17) by (metis snd_conv)
  have "outgoing (viewc wc') = outgoing (viewc w1)"
    using answered_frame [OF assms(2,1), where w = w1 and I = I and C = C and config = ccfg and key = key]
    unfolding wc' by (simp add: only_input_def)
  with assms(19) c(3) have "incoming (views ws) = encode_utf8 request @ later_s" by simp
  from accept_run [OF assms(3,1) c(1) assms(15,16) this assms(9,12)] assms(18) have
    s: "rs = Returns (Inr (second_stage_handshake Server (scfg\<lparr>ws_extensions := agreement scfg ccfg\<rparr>) dec enc))"
      "views ws' = (views ws)\<lparr>incoming := later_s, outgoing := outgoing (views ws)
          @ encode_utf8 (server_response L key (agreement scfg ccfg))\<rparr>"
    by (auto simp: enabling_extra [OF assms(10)])
  have w1: "punctual (viewc w1)"
    "incoming (viewc w1) = encode_utf8 (server_response L key (agreement scfg ccfg)) @ later_c"
    using c(3) assms(13,20) s(2) by simp_all
  from answered_run [OF assms(2,1) w1, of I C dec enc ccfg] assms(12,17) c(2)
  have "rc = Returns (Inr (second_stage_handshake Client (ccfg\<lparr>ws_extensions := agreement scfg ccfg\<rparr>) dec enc))"
    "viewc wc' = (viewc w1)\<lparr>incoming := later_c\<rparr>"
    by (auto simp: enabling_agreement [OF assms(11)])
  moreover from this c(3) have
    "viewc wc' = (viewc wc)\<lparr>incoming := later_c, outgoing := outgoing (viewc wc) @ encode_utf8 request\<rparr>"
    by (intro link_eqI) simp_all
  ultimately show ?thesis using s by blast
qed

section \<open>Library instances\<close>

text \<open>Base64 (RFC 4648) with padding.\<close>

definition base64_char :: "nat \<Rightarrow> rchar" where
  "base64_char n =
     (if n < 26 then 65 + n else if n < 52 then 71 + n else if n < 62 then n - 4
      else if n = 62 then 43 else 47)"

fun encode_base64 :: "bytes \<Rightarrow> rstring" where
  "encode_base64 [] = []"
| "encode_base64 [a] = [base64_char (unat a div 4), base64_char (unat a mod 4 * 16), 61, 61]"
| "encode_base64 [a, b] =
     [base64_char (unat a div 4), base64_char (unat a mod 4 * 16 + unat b div 16),
      base64_char (unat b mod 16 * 4), 61]"
| "encode_base64 (a # b # c # bs) =
     [base64_char (unat a div 4), base64_char (unat a mod 4 * 16 + unat b div 16),
      base64_char (unat b mod 16 * 4 + unat c div 64), base64_char (unat c mod 64)]
     @ encode_base64 bs"

lemma base64_char_visible: "n < 64 \<Longrightarrow> 33 \<le> base64_char n \<and> base64_char n \<le> 126"
  by (auto simp: base64_char_def)

lemma base64_digits:
  "unat (a :: u8) div 4 < 64" "unat a mod 4 * 16 < 64" "unat a mod 4 * 16 + unat (b :: u8) div 16 < 64"
  "unat b mod 16 * 4 < 64" "unat b mod 16 * 4 + unat (c :: u8) div 64 < 64" "unat c mod 64 < 64"
proof -
  have x: "unat a div 4 < 64" "unat b div 16 < 16" "unat c div 64 < 4"
    using unat_u8_less [of a] unat_u8_less [of b] unat_u8_less [of c] by (simp_all add: less_mult_imp_div_less)
  have y: "unat a mod 4 < 4" "unat b mod 16 < 16" "unat c mod 64 < 64" by simp_all
  show "unat a div 4 < 64" "unat a mod 4 * 16 < 64" "unat a mod 4 * 16 + unat b div 16 < 64"
    "unat b mod 16 * 4 < 64" "unat b mod 16 * 4 + unat c div 64 < 64" "unat c mod 64 < 64"
    using x y by linarith+
qed

lemma encode_base64_visible: "visible (encode_base64 bs)"
  by (induction bs rule: encode_base64.induct)
     (simp_all add: visible_def base64_char_visible base64_digits)

lemma encode_base64_nonempty: "bs \<noteq> [] \<Longrightarrow> encode_base64 bs \<noteq> []"
  by (induction bs rule: encode_base64.induct) simp_all

text \<open>A digest of 20 bytes; nothing else about SHA-1 is relied on.\<close>

definition sim_library :: library where
  "sim_library =
     \<lparr>to_lowercase = map ascii_lower, sha1 = (\<lambda>bs. take 20 (bs @ replicate 20 0)),
      base64 = encode_base64, parse_url = sim_url_parse\<rparr>"

lemma sim_library_simps:
  "to_lowercase sim_library = map ascii_lower" "parse_url sim_library = sim_url_parse"
  by (simp_all add: sim_library_def)

interpretation sim_library: handshake_library sim_library
proof -
  have "length (sha1 sim_library bs) = 20" for bs
    by (auto simp: sim_library_def min_def)
  then show "handshake_library sim_library"
    unfolding handshake_library_def handshake_library_axioms_def sim_library_simps
    using ascii.lowercase_axioms sim_urls.url_library_axioms
    by (simp add: sim_library_def encode_base64_visible encode_base64_nonempty)
qed

definition sim_network :: "(sim, unit, unit, rstring) network" where
  "sim_network =
     \<lparr>tcp_connect = (\<lambda>a w. (Returns (Inr ()), w)), ca_certificates = (\<lambda>f w. (Returns (Inr []), w)),
      empty_store = (), add_certificate = (\<lambda>c s. Some s), add_webpki_roots = id,
      server_name = Inr, tls_connect = (\<lambda>s n w. (Returns (Inr ()), w))\<rparr>"

lemma sim_reachable: "reachable sim_view sim_network"
  by (simp add: reachable_def sim_network_def)

text \<open>In the simulated world a key depends on the seed only, and drawing it changes nothing else.\<close>

lemma sim_random_bytes:
  "\<exists>bs k'. length bs = n \<and> (\<forall>w. seed w = k \<longrightarrow>
     random_bytes sim_runtime n w = (Returns (Inr bs), w\<lparr>seed := k'\<rparr>))"
proof (induction n arbitrary: k)
  case 0
  have "\<forall>w. seed w = k \<longrightarrow> random_bytes sim_runtime 0 w = (Returns (Inr []), w\<lparr>seed := k\<rparr>)"
    by (auto simp: ok_def)
  then show ?case by blast
next
  case (Suc n)
  from Suc.IH [of "(k * 205 + 77) mod 65536"] obtain bs k' where
    "length bs = n" "\<forall>w. seed w = (k * 205 + 77) mod 65536 \<longrightarrow>
       random_bytes sim_runtime n w = (Returns (Inr bs), w\<lparr>seed := k'\<rparr>)" by blast
  then have "length (byte k # bs) = Suc n \<and> (\<forall>w. seed w = k \<longrightarrow>
       random_bytes sim_runtime (Suc n) w = (Returns (Inr (byte k # bs)), w\<lparr>seed := k'\<rparr>))"
    by (simp add: run draw_u8_def sim_runtime_def sim_random_u8_def)
  then show ?case by blast
qed

lemma sim_key:
  obtains key k' where "visible key" "key \<noteq> []"
    "\<And>bs. generate_websocket_key sim_runtime sim_library (sim_peer bs)
       = (Returns (Inr key), (sim_peer bs)\<lparr>seed := k'\<rparr>)"
proof -
  obtain rs k' where r: "length rs = 16"
    "\<forall>w. seed w = 0 \<longrightarrow> random_bytes sim_runtime 16 w = (Returns (Inr rs), w\<lparr>seed := k'\<rparr>)"
    using sim_random_bytes [of 16 0] by blast
  show ?thesis
  proof (rule that [of "base64 sim_library rs" k'])
    show "base64 sim_library rs \<noteq> []" using r(1) by (auto intro!: sim_library.base64_nonempty)
    show "generate_websocket_key sim_runtime sim_library (sim_peer bs)
       = (Returns (Inr (base64 sim_library rs)), (sim_peer bs)\<lparr>seed := k'\<rparr>)" for bs
      using r(2) by (simp add: generate_websocket_key_def run sim_peer_def)
  qed (rule sim_library.base64_visible)
qed

text \<open>
  A client and a server of the simulated world, both with compression: what each writes when it
  reads what the other writes.
\<close>

definition sim_connect :: "sim \<Rightarrow> (error + (nat \<times> bytes) ws_connection \<times> (nat \<times> phase) read_stream) outcome \<times> sim" where
  "sim_connect = connect_async_with_config sim_runtime sim_line_io sim_library sim_network
     stored_inflater stored_deflater (lit ''ws://h/p'')
     (Some \<lparr>client_web_socket_config = zip_config 20, ca_file = None\<rparr>)"

definition sim_accept :: "sim \<Rightarrow> (error + (nat \<times> bytes) ws_connection \<times> (nat \<times> phase) read_stream) outcome \<times> sim" where
  "sim_accept = accept_async_with_config sim_runtime sim_line_io sim_library stored_inflater
     stored_deflater (Some (zip_config 200))"

definition sim_agreed :: "extensions option" where
  "sim_agreed = agreement (zip_config 200) (zip_config 20)"

definition sim_dec :: "(nat \<times> phase) decoder" where
  "sim_dec = \<lparr>decompressor = (0, Header), d_reset_context = False\<rparr>"

definition sim_enc :: "(nat \<times> bytes) encoder" where
  "sim_enc = \<lparr>compressor = (0, []), c_reset_context = False\<rparr>"

lemma sim_url:
  "parse_url sim_library (lit ''ws://h/p'') = Inr \<lparr>url_scheme = lit ''ws'', url_host = Some (lit ''h''),
     url_port = None, url_path = lit ''/p'', url_query = None\<rparr>"
  by (simp add: sim_library_def sim_url_parse_def visible_def)

lemma zip_enabling: "enabling (zip_config n)"
  by (simp add: enabling_def zip_config_def)

lemma zip_agreed: "(zip_config n)\<lparr>ws_extensions := sim_agreed\<rparr> = zip_config n"
  by (simp add: sim_agreed_def agreement_def seen_def advertised_def merge_extensions_def zip_config_def
      default_extensions_def option_and_def merge_bits_def)

lemma sim_codecs: "codecs stored_inflater stored_deflater sim_agreed sim_dec sim_enc"
  by (simp add: codecs_def sim_agreed_def agreement_def seen_def advertised_def merge_extensions_def
      zip_config_def default_extensions_def option_and_def merge_bits_def new_decoder_def new_encoder_def
      stored_inflater_def stored_deflater_def sim_dec_def sim_enc_def)

lemma sim_scene:
  obtains request response where
    "\<And>rest rc wc. sim_connect (sim_peer (response @ rest)) = (rc, wc) \<Longrightarrow> outgoing (sim_view wc) = request"
    "\<And>rest rs ws. sim_accept (sim_peer (request @ rest)) = (rs, ws) \<Longrightarrow> outgoing (sim_view ws) = response"
proof -
  obtain key k' where key: "visible key" "key \<noteq> []"
    "\<And>bs. generate_websocket_key sim_runtime sim_library (sim_peer bs)
       = (Returns (Inr key), (sim_peer bs)\<lparr>seed := k'\<rparr>)"
    using sim_key by metis
  obtain request address where req:
    "requests sim_library (lit ''ws://h/p'') key (ws_extensions (zip_config 20)) request"
    "construct_http_request (parse_url sim_library) (lit ''ws://h/p'') key (ws_extensions (zip_config 20))
     = Inr (request, address, lit ''h'', False)"
    by (rule request_for_key [OF sim_url _ _ key(1,2)]) simp_all
  show ?thesis
  proof (rule that)
    fix rest rc wc
    let ?wc = "sim_peer (encode_utf8 (server_response sim_library key sim_agreed) @ rest)"
    assume c: "sim_connect ?wc = (rc, wc)"
    have v: "sim_view (?wc\<lparr>seed := k'\<rparr>) = sim_view ?wc" by (simp add: sim_view_def)
    have "zip_config 20 = client_web_socket_config (unwrap_or default_client_config
        (Some \<lparr>client_web_socket_config = zip_config 20, ca_file = None\<rparr>))" by simp
    from connect_from_key [OF sim_lines.line_source_axioms sim_reachable, OF sim_peer_view(4) key(3) v this req(2)]
    obtain w1 where w1: "sim_connect ?wc = answered sim_runtime sim_line_io sim_library stored_inflater
        stored_deflater (zip_config 20) key w1"
      "sim_view w1 = (sim_view ?wc)\<lparr>outgoing := encode_utf8 request\<rparr>"
      unfolding sim_connect_def by (fastforce simp del: lit_simps)
    then have "wc = snd (answered sim_runtime sim_line_io sim_library stored_inflater stored_deflater
        (zip_config 20) key w1)"
      using c by (metis snd_conv)
    then show "outgoing (sim_view wc) = encode_utf8 request"
      using answered_frame [OF sim_lines.line_source_axioms sim_library.handshake_library_axioms,
          where w = w1 and I = stored_inflater and C = stored_deflater and config = "zip_config 20" and key = key]
        w1(2) by (simp add: only_input_def)
  next
    fix rest rs ws
    let ?ws = "sim_peer (encode_utf8 request @ rest)"
    assume s: "sim_accept ?ws = (rs, ws)"
    have "zip_config 200 = unwrap_or default_web_socket_config (Some (zip_config 200))" by simp
    note answers = accept_run [OF sim_lines.line_source_axioms sim_library.handshake_library_axioms req(1),
        OF sim_peer_view(2,4,1) this sim_codecs [unfolded sim_agreed_def]]
    from answers [of rest] s show "outgoing (sim_view ws) = encode_utf8 (server_response sim_library key sim_agreed)"
      unfolding sim_accept_def sim_agreed_def by (auto simp del: lit_simps)
  qed
qed

lemma sim_connected:
  obtains wc wc' where "sim_connect wc
      = (Returns (Inr (second_stage_handshake Client (zip_config 20) sim_dec sim_enc)), wc')"
proof -
  obtain request response where scene:
    "\<And>rest rc wc. sim_connect (sim_peer (response @ rest)) = (rc, wc) \<Longrightarrow> outgoing (sim_view wc) = request"
    "\<And>rest rs ws. sim_accept (sim_peer (request @ rest)) = (rs, ws) \<Longrightarrow> outgoing (sim_view ws) = response"
    by (rule sim_scene) blast
  obtain rc wc where c: "sim_connect (sim_peer (response @ [])) = (rc, wc)" by (metis surj_pair)
  obtain rs ws where s: "sim_accept (sim_peer (request @ [])) = (rs, ws)" by (metis surj_pair)
  from handshake_run [OF sim_library.handshake_library_axioms sim_lines.line_source_axioms
      sim_lines.line_source_axioms sim_reachable, OF sim_url _ _ refl refl _ _ _ sim_peer_view(2,4)
      sim_peer_view(2,4) c [unfolded sim_connect_def] s [unfolded sim_accept_def],
      of "lit ''h''" sim_dec sim_enc "[]" "[]"]
    scene(1) [OF c] scene(2) [OF s] sim_codecs
  have "rc = Returns (Inr (second_stage_handshake Client (zip_config 20) sim_dec sim_enc))"
    by (simp add: zip_enabling zip_agreed sim_agreed_def [symmetric])
  with c that show ?thesis by blast
qed

section \<open>Properties\<close>

text \<open>
  \<^bold>\<open>C3.\<close> The opening handshake: a client and a server of this crate that read what the other
  one writes both return a connection. They hold the same extensions, which are those the server
  has in common with what the client offered, decoders and encoders made from these parameters,
  and neither side takes a byte off the socket that belongs to the frames after the handshake.
  (Extensions, where configured, ask for compression.)
\<close>

theorem handshake_agrees:
  assumes "handshake_library L" "line_source Rc viewc Hc" "line_source Rs views Hs" "reachable viewc N"
    and "parse_url L addr = Inr u" "url_host u = Some host" "url_scheme u = lit ''ws''"
    and "ccfg = client_web_socket_config (unwrap_or default_client_config client_option)"
    and "scfg = unwrap_or default_web_socket_config server_option" "enabling ccfg" "enabling scfg"
    and "codecs I C (agreement scfg ccfg) dec enc"
    and "punctual (viewc wc)" "writable (viewc wc)" "punctual (views ws)" "writable (views ws)"
    and "connect_async_with_config Rc Hc L N I C addr client_option wc = (rc, wc')"
    and "accept_async_with_config Rs Hs L I C server_option ws = (rs, ws')"
    and "incoming (views ws) = drop (length (outgoing (viewc wc))) (outgoing (viewc wc')) @ later_s"
    and "incoming (viewc wc) = drop (length (outgoing (views ws))) (outgoing (views ws')) @ later_c"
  shows "rc = Returns (Inr (second_stage_handshake Client
             (ccfg\<lparr>ws_extensions := agreement scfg ccfg\<rparr>) dec enc))
    \<and> rs = Returns (Inr (second_stage_handshake Server
             (scfg\<lparr>ws_extensions := agreement scfg ccfg\<rparr>) dec enc))
    \<and> incoming (viewc wc') = later_c \<and> incoming (views ws') = later_s"
  using handshake_run [OF assms] by auto

theorem handshake_agrees_witness:
  "\<exists>wc wc' ws ws'.
      sim_connect wc = (Returns (Inr (second_stage_handshake Client (zip_config 20) sim_dec sim_enc)), wc')
    \<and> sim_accept ws = (Returns (Inr (second_stage_handshake Server (zip_config 200) sim_dec sim_enc)), ws')
    \<and> arrivals wc' = [] \<and> arrivals ws' = []"
proof -
  obtain request response where scene:
    "\<And>rest rc wc. sim_connect (sim_peer (response @ rest)) = (rc, wc) \<Longrightarrow> outgoing (sim_view wc) = request"
    "\<And>rest rs ws. sim_accept (sim_peer (request @ rest)) = (rs, ws) \<Longrightarrow> outgoing (sim_view ws) = response"
    by (rule sim_scene) blast
  obtain rc wc' where c: "sim_connect (sim_peer (response @ [])) = (rc, wc')" by (metis surj_pair)
  obtain rs ws' where s: "sim_accept (sim_peer (request @ [])) = (rs, ws')" by (metis surj_pair)
  from handshake_agrees [OF sim_library.handshake_library_axioms sim_lines.line_source_axioms
      sim_lines.line_source_axioms sim_reachable, OF sim_url _ _ refl refl _ _ _ sim_peer_view(2,4)
      sim_peer_view(2,4) c [unfolded sim_connect_def] s [unfolded sim_accept_def],
      of "lit ''h''" sim_dec sim_enc "[]" "[]"]
    scene(1) [OF c] scene(2) [OF s] sim_codecs
  have "rc = Returns (Inr (second_stage_handshake Client (zip_config 20) sim_dec sim_enc))
    \<and> rs = Returns (Inr (second_stage_handshake Server (zip_config 200) sim_dec sim_enc))
    \<and> incoming (sim_view wc') = [] \<and> incoming (sim_view ws') = []"
    by (simp add: zip_enabling zip_agreed sim_agreed_def [symmetric])
  with c s show ?thesis by (auto simp: sim_view_def)
qed

text \<open>
  \<^bold>\<open>C16.\<close> What a server puts on the socket during the handshake: on every input it returns, and
  it writes nothing unless it has read a request with method \<open>GET\<close>, a host and a key; then it
  writes exactly the \<open>101\<close> response for that key and for the extensions it has in common with
  those offered, and returns these. A request that could not be read or lacks one of the three
  is refused with the error that says so.
\<close>

theorem handshake_server_answers:
  assumes "line_source R view H" "handshake_library L" "writable (view w)"
  shows "\<exists>r w1 w'. parse_http_request R H (to_lowercase L) w = (Returns r, w1)
    \<and> only_input (view w) (view w1)
    \<and> (case r of
         Inl e \<Rightarrow> parse_handshake_server R H L sexts w = (Returns (Inl e), w1)
       | Inr req \<Rightarrow>
           if hr_method req \<noteq> lit ''GET'' then
             parse_handshake_server R H L sexts w = (Returns (Inl InvalidHTTPHandshake), w1)
           else if hr_headers req (lit ''host'') = None then
             parse_handshake_server R H L sexts w = (Returns (Inl NoHostHeaderPresent), w1)
           else case hr_headers req (lit ''sec-websocket-key'') of
             None \<Rightarrow> parse_handshake_server R H L sexts w = (Returns (Inl NoSecWebsocketKey), w1)
           | Some key \<Rightarrow>
               let agreed = merge_extensions sexts (offered req) in
               parse_handshake_server R H L sexts w = (Returns (Inr agreed), w')
               \<and> view w' = (view w1)\<lparr>outgoing :=
                     outgoing (view w) @ encode_utf8 (server_response L key agreed)\<rparr>)"
proof -
  have low: "lowercase (to_lowercase L)" using assms(2) by (simp add: handshake_library_def)
  obtain r w1 where r: "parse_http_request R H (to_lowercase L) w = (Returns r, w1)"
    using head_returns [OF assms(1) low] by blast
  have f: "only_input (view w) (view w1)"
    using parse_http_request_frame [OF assms(1) low, of w] r by simp
  then have w1: "writable (view w1)" "outgoing (view w1) = outgoing (view w)"
    using assms(3) by (simp_all add: only_input_def)
  show ?thesis
  proof (cases r)
    case (Inl e)
    with r f parse_handshake_server_error [OF r [unfolded Inl], of sexts] show ?thesis by auto
  next
    case (Inr req)
    show ?thesis
    proof (cases "valid_upgrade req")
      case True
      from parse_handshake_server_valid [OF assms(1) r [unfolded Inr] True w1(1) refl, of sexts] obtain w'
        where "parse_handshake_server R H L sexts w
            = (Returns (Inr (merge_extensions sexts (offered req))), w')"
          "view w' = (view w1)\<lparr>outgoing := outgoing (view w1) @ encode_utf8 (server_response L
              (the (hr_headers req SEC_WEBSOCKET_KEY)) (merge_extensions sexts (offered req)))\<rparr>" by blast
      with True r Inr f w1(2) show ?thesis
        by (intro exI [of _ r] exI [of _ w1] exI [of _ w'])
           (auto simp: valid_upgrade_def handshake_names Let_def simp del: lit_simps)
    next
      case False
      with parse_handshake_server_invalid [OF r [unfolded Inr] False, of sexts] r Inr f show ?thesis
        by (intro exI [of _ r] exI [of _ w1])
           (auto simp: valid_upgrade_def handshake_names simp del: lit_simps)
    qed
  qed
qed

theorem handshake_server_answers_witness:
  "\<exists>w'. parse_handshake_server sim_runtime sim_line_io sim_library None
      (sim_peer (encode_utf8 (http_head (lit ''GET / HTTP/1.1'') [(lit ''Host'', lit ''a'')])))
    = (Returns (Inl NoSecWebsocketKey), w') \<and> sent w' = []"
proof -
  let ?w = "sim_peer (encode_utf8 (http_head (lit ''GET / HTTP/1.1'') [(lit ''Host'', lit ''a'')]))"
  have hs: "list_all header_ok [(lit ''Host'', lit ''a'')]"
    by (simp add: header_ok_def header_line_def is_line_def trim_def is_whitespace_def is_scalar_def)
  have rl: "is_line (lit ''GET / HTTP/1.1'')" "valid_string (lit ''GET / HTTP/1.1'')"
    by (simp_all add: is_line_def is_scalar_def)
  have sw: "split_whitespace (lit ''GET / HTTP/1.1'') = [lit ''GET'', lit ''/'', lit ''HTTP/1.1'']"
    by (simp add: split_whitespace_def is_whitespace_def)
  have inc: "incoming (sim_view ?w)
      = encode_utf8 (http_head (lit ''GET / HTTP/1.1'') [(lit ''Host'', lit ''a'')]) @ []"
    by (simp only: sim_peer_view append_Nil2)
  obtain req w1 where req: "parse_http_request sim_runtime sim_line_io (map ascii_lower) ?w
      = (Returns (Inr req), w1)" "hr_method req = lit ''GET''"
      "hr_headers req = headers_of (map ascii_lower) [(lit ''Host'', lit ''a'')]"
    using head_parsed [OF sim_lines.line_source_axioms ascii.lowercase_axioms,
        OF sim_peer_view(2) inc rl hs sw] by fastforce
  have "hr_headers req (lit ''host'') \<noteq> None" "hr_headers req (lit ''sec-websocket-key'') = None"
    by (simp_all add: req(3) headers_of_def ascii_lower_def)
  with handshake_server_answers [OF sim_lines.line_source_axioms sim_library.handshake_library_axioms
      sim_peer_view(4), of _ None] req(1,2)
  obtain w1 where "only_input (sim_view ?w) (sim_view w1)"
    "parse_handshake_server sim_runtime sim_line_io sim_library None ?w = (Returns (Inl NoSecWebsocketKey), w1)"
    unfolding sim_library_simps by (fastforce simp del: lit_simps)
  then show ?thesis by (auto simp: only_input_def sim_view_def sim_peer_def)
qed

lemma window_bits_panic:
  assumes "handshake_library L" "line_source R view H"
    and "requests L addr key (Some e) request" "permessage_deflate e" "client_max_window_bits e = Some b"
    and "ws_extensions scfg = Some se" "permessage_deflate se" "client_max_window_bits se = None"
    and "new_inflater I (Some b) = None"
    and "punctual (view w)" "writable (view w)" "incoming (view w) = encode_utf8 request @ rest"
  shows "\<exists>w' agreed. accept_async_with_config R H L I C (Some scfg) w = (Panics, w')
    \<and> outgoing (view w') = outgoing (view w) @ encode_utf8 (server_response L key (Some agreed))
    \<and> client_max_window_bits agreed = Some b"
proof -
  obtain a where a: "merge_extensions (ws_extensions scfg) (seen (Some e)) = Some a"
    "client_max_window_bits a = Some b"
    using assms(4-8) by (simp add: merge_extensions_def seen_def advertised_def merge_bits_def)
  from handshake_library.server_answers_client [OF assms(1-3,10-12) refl, of "ws_extensions scfg"]
  obtain w' where w': "parse_handshake_server R H L (ws_extensions scfg) w = (Returns (Inr (Some a)), w')"
    "outgoing (view w') = outgoing (view w) @ encode_utf8 (server_response L key (Some a))"
    by (auto simp: a(1))
  then have "accept_async_with_config R H L I C (Some scfg) w = (Panics, w')"
    using a(2) assms(9) by (simp add: accept_async_with_config_def run or_panic_def new_decoder_def)
  with w'(2) a(2) show ?thesis by blast
qed

text \<open>A decompressor with the bounds of flate2.\<close>

definition bounded_inflater :: "(nat \<times> phase) inflater" where
  "bounded_inflater = stored_inflater\<lparr>new_inflater := (\<lambda>bits. case bits of
     None \<Rightarrow> Some (0, Header)
   | Some b \<Rightarrow> if 9 \<le> b \<and> b \<le> 15 then Some (0, Header) else None)\<rparr>"

definition narrow :: extensions where
  "narrow = default_extensions\<lparr>permessage_deflate := True, client_max_window_bits := Some 8\<rparr>"

lemma sim_narrow_request:
  obtains request where "requests sim_library (lit ''ws://h/p'') (lit ''k'') (Some narrow) request"
proof -
  let ?u = "\<lparr>url_scheme = lit ''ws'', url_host = Some (lit ''h''), url_port = None,
             url_path = lit ''/p'', url_query = None\<rparr>"
  have u: "parse_url sim_library (lit ''ws://h/p'') = Inr ?u" "url_host ?u = Some (lit ''h'')"
      "url_scheme ?u = lit ''ws''" "visible (lit ''k'')" "lit ''k'' \<noteq> []"
    by (simp_all add: sim_library_def sim_url_parse_def visible_def)
  from request_for_key [OF u] that show ?thesis by blast
qed

lemma sim_narrow:
  "permessage_deflate narrow" "client_max_window_bits narrow = Some 8"
  "ws_extensions (zip_config 200) = Some (default_extensions\<lparr>permessage_deflate := True\<rparr>)"
  "permessage_deflate (default_extensions\<lparr>permessage_deflate := True\<rparr>)"
  "client_max_window_bits (default_extensions\<lparr>permessage_deflate := True\<rparr>) = None"
  "new_inflater bounded_inflater (Some 8) = None"
  "punctual (sim_view (sim_peer (encode_utf8 request)))" "writable (sim_view (sim_peer (encode_utf8 request)))"
  "incoming (sim_view (sim_peer (encode_utf8 request))) = encode_utf8 request @ []"
  using sim_peer_view(2,4) by (simp_all add: narrow_def zip_config_def default_extensions_def bounded_inflater_def)

lemma sim_panic:
  obtains request w1 where "accept_async_with_config sim_runtime sim_line_io sim_library bounded_inflater
      stored_deflater (Some (zip_config 200)) (sim_peer (encode_utf8 request)) = (Panics, w1)"
proof -
  obtain request where req: "requests sim_library (lit ''ws://h/p'') (lit ''k'') (Some narrow) request"
    by (rule sim_narrow_request)
  from window_bits_panic [OF sim_library.handshake_library_axioms sim_lines.line_source_axioms,
      OF req sim_narrow] that show ?thesis by blast
qed

text \<open>
  \<^bold>\<open>C33.\<close> The window sizes in the handshake are not checked: when the server's extensions leave
  \<open>client_max_window_bits\<close> open, the client's value, any byte, becomes the argument of the
  decompressor's constructor. For a value flate2 refuses, \<open>accept_async_with_config\<close> panics,
  after it has sent the \<open>101\<close> response.
\<close>

theorem client_window_bits_panic:
  assumes "handshake_library L" "line_source R view H"
    and "requests L addr key (Some e) request" "permessage_deflate e" "client_max_window_bits e = Some b"
    and "ws_extensions scfg = Some se" "permessage_deflate se" "client_max_window_bits se = None"
    and "new_inflater I (Some b) = None"
    and "punctual (view w)" "writable (view w)" "incoming (view w) = encode_utf8 request @ rest"
  shows "\<exists>w' agreed. accept_async_with_config R H L I C (Some scfg) w = (Panics, w')
    \<and> outgoing (view w') = outgoing (view w) @ encode_utf8 (server_response L key (Some agreed))
    \<and> client_max_window_bits agreed = Some b"
  by (rule window_bits_panic [OF assms])

theorem client_window_bits_panic_witness:
  "\<exists>request. fst (accept_async_with_config sim_runtime sim_line_io sim_library bounded_inflater
      stored_deflater (Some (zip_config 200)) (sim_peer (encode_utf8 request))) = Panics"
proof -
  obtain request where req: "requests sim_library (lit ''ws://h/p'') (lit ''k'') (Some narrow) request"
    by (rule sim_narrow_request)
  note panics = client_window_bits_panic [OF sim_library.handshake_library_axioms
      sim_lines.line_source_axioms, OF req sim_narrow]
  then have "fst (accept_async_with_config sim_runtime sim_line_io sim_library bounded_inflater
      stored_deflater (Some (zip_config 200)) (sim_peer (encode_utf8 request))) = Panics"
    using fst_conv by metis
  then show ?thesis by blast
qed

end
