(* ===== verification/Established.thy ===== *)
theory Established
  imports Handshake
begin

text \<open>
  A connection after the handshake: what the user's stream of messages holds when the reader
  task of \<open>second_stage_handshake\<close> has run, and that messages cross a connection the two
  handshake functions have set up.
\<close>

section \<open>The reader task\<close>

lemma second_stage_handshake_simps [simp]:
  "second_stage_handshake k config dec enc
   = (\<lparr>conn_writer = new_ws_writer \<lparr>kind = k\<rparr> config enc, conn_reader = new_ws_reader ReceiverStream\<rparr>,
      new_read_stream \<lparr>kind = k\<rparr> config dec)"
  by (simp add: second_stage_handshake_def new_ws_connection_def)

lemma reader_task_ends:
  "poll_messages R I s = Some (Returns (Inr ()), s') \<Longrightarrow> reader_task R I s = (Returns (), s')"
  by (simp add: reader_task_def)

lemma channel_send_item:
  assumes "outbox R view" "channel_send R m w = (r, w')"
  shows "delivered (view w') = delivered (view w) \<or> delivered (view w') = delivered (view w) @ [m]"
  using outbox.channel_send_delivered [OF assms(1), of m w] outbox.channel_send_failed [OF assms(1), of m w]
    assms(2) by (cases "r = Returns (Inr ())") simp_all

lemma reader_items:
  assumes "connection R view" "reader_task R I (new_read_stream wtr config dec, w) = (r, (self', w'))"
  shows "\<exists>ms errs. delivered (view w') = delivered (view w) @ map Inr ms @ map Inl errs
    \<and> (\<forall>m\<in>set ms. deliverable config m)
    \<and> (errs = [] \<or> (\<exists>e s'. errs = [e]
        \<and> poll_messages R I (new_read_stream wtr config dec, w) = Some (Returns (Inl e), s')))"
proof (cases "poll_messages R I (new_read_stream wtr config dec, w)")
  case None
  with assms(2) show ?thesis
    by (intro exI [of _ "[]"]) (auto simp: reader_task_def)
next
  case (Some out)
  then obtain r1 self1 w1 where p: "poll_messages R I (new_read_stream wtr config dec, w)
      = Some (r1, (self1, w1))" by (cases out) auto
  from loop_delivers [OF assms(1) p] obtain ms where ms:
    "delivered (view w1) = delivered (view w) @ map Inr ms" "\<forall>m\<in>set ms. deliverable config m" by blast
  show ?thesis
  proof (cases "\<exists>e. r1 = Returns (Inl e)")
    case True
    then obtain e where e: "r1 = Returns (Inl e)" by blast
    obtain r2 w2 where c: "channel_send R (Inl e) w1 = (r2, w2)" by (metis surj_pair)
    then have "w' = w2" using assms(2) p e by (cases r2) (simp_all add: reader_task_def)
    have box: "outbox R view" using assms(1) by (simp add: connection_def)
    from channel_send_item [OF box c] show ?thesis
    proof
      assume "delivered (view w2) = delivered (view w1)"
      with ms \<open>w' = w2\<close> show ?thesis by (intro exI [of _ ms] exI [of _ "[]"]) simp
    next
      assume "delivered (view w2) = delivered (view w1) @ [Inl e]"
      with ms \<open>w' = w2\<close> p e show ?thesis by (intro exI [of _ ms] exI [of _ "[e]"]) auto
    qed
  next
    case False
    then have "w' = w1"
      using assms(2) p by (cases r1) (auto simp: reader_task_def split: sum.splits)
    with ms show ?thesis by (intro exI [of _ ms] exI [of _ "[]"]) simp
  qed
qed

section \<open>A client and a server connected by the handshake\<close>

text \<open>What the codecs of both sides and the bounds of both configurations have to meet.\<close>

definition compatible ::
  "'c deflater \<Rightarrow> ('c encoder \<Rightarrow> 'd decoder \<Rightarrow> bool) \<Rightarrow> web_socket_config \<Rightarrow> web_socket_config
     \<Rightarrow> 'd decoder \<Rightarrow> 'c encoder \<Rightarrow> bool" where
  "compatible C synced ccfg scfg dec enc \<longleftrightarrow>
     synced enc dec \<and> 0 < frame_limit ccfg \<and> frame_limit ccfg \<le> frame_limit scfg
     \<and> frame_limit ccfg < 2 ^ 64 \<and> message_limit ccfg \<le> message_limit scfg
     \<and> (\<forall>p e d z e'. synced e d \<and> p \<noteq> [] \<and> length p \<le> message_limit ccfg
          \<and> compress C p e = (Returns (Inr z), e') \<longrightarrow> length z \<le> message_limit scfg)"

lemma compatible_paired:
  assumes "compatible C synced ccfg scfg dec enc"
  shows "paired synced (new_ws_writer k (ccfg\<lparr>ws_extensions := x\<rparr>) enc)
           (new_read_stream k' (scfg\<lparr>ws_extensions := x\<rparr>) dec)"
    and "compression_fits C synced (new_ws_writer k (ccfg\<lparr>ws_extensions := x\<rparr>) enc)
           (new_read_stream k' (scfg\<lparr>ws_extensions := x\<rparr>) dec)"
  using assms
  by (auto simp: compatible_def paired_def compression_fits_def new_ws_writer_def new_read_stream_def
      frame_limit_def message_limit_def deflate_enabled_def)

section \<open>A stray line end\<close>

text \<open>\<open>\r\n\<close> where a frame should start: opcode 13.\<close>

context connection
begin

lemma read_frame_stray:
  assumes "punctual (view w)" "incoming (view w) = [13, 10] @ rest"
  obtains w1 where "poll_messages R I (self, w) = Some (Returns (Inl InvalidOpcode), (self, w1))"
    "view w1 = (view w)\<lparr>incoming := rest\<rparr>"
proof -
  from rd_at [OF assms, of 2 self] obtain w1 where w1:
    "rd R 2 (self, w) = (Returns (Inr [13, 10]), (self, w1))" "view w1 = (view w)\<lparr>incoming := rest\<rparr>" by auto
  have "op_code_from (13 AND 0x0F) = Inl InvalidOpcode" by (simp add: op_code_from_def)
  with w1(1) have "poll_once R I (self, w) = (Returns (Inl InvalidOpcode), (self, w1))"
    by (simp add: poll_once_def read_frame_def run)
  with w1(2) that show ?thesis by (simp add: poll_messages.simps)
qed

lemma reader_task_stray:
  assumes "punctual (view w)" "incoming (view w) = [13, 10] @ rest" "listening (view w)"
  obtains w1 where "reader_task R I (self, w) = (Returns (), (self, w1))"
    "delivered (view w1) = delivered (view w) @ [Inl InvalidOpcode]"
proof -
  obtain w1 where w1: "poll_messages R I (self, w) = Some (Returns (Inl InvalidOpcode), (self, w1))"
    "view w1 = (view w)\<lparr>incoming := rest\<rparr>" by (rule read_frame_stray [OF assms(1,2)])
  have l: "listening (view w1)" using w1(2) assms(3) by simp
  obtain w2 where c: "channel_send R (Inl InvalidOpcode) w1 = (Returns (Inr ()), w2)"
    using channel_send_ok [OF l, of "Inl InvalidOpcode"] by (metis prod.collapse)
  show ?thesis
  proof (rule that)
    show "reader_task R I (self, w) = (Returns (), (self, w2))"
      by (simp add: reader_task_def w1(1) c)
    show "delivered (view w2) = delivered (view w) @ [Inl InvalidOpcode]"
      using channel_send_view [OF l, of "Inl InvalidOpcode"] w1(2) c by simp
  qed
qed

end

lemma merge_none [simp]: "merge_extensions sexts None = None"
  by (simp add: merge_extensions_def split: option.split)

text \<open>Handshake and session in sequence.\<close>

lemma connection_run:
  assumes "handshake_library L" "line_source Rc viewc Hc" "line_source Rs views Hs" "reachable viewc N"
    and "parse_url L addr = Inr u" "url_host u = Some host" "url_scheme u = lit ''ws''"
    and "ccfg = client_web_socket_config (unwrap_or default_client_config client_option)"
    and "scfg = unwrap_or default_web_socket_config server_option" "enabling ccfg" "enabling scfg"
    and "codecs I C (agreement scfg ccfg) dec enc"
    and "punctual (viewc wc)" "writable (viewc wc)" "punctual (views ws)" "writable (views ws)"
    and "connect_async_with_config Rc Hc L N I C addr client_option wc = (Returns (Inr (conn, rdr)), wc1)"
    and "accept_async_with_config Rs Hs L I C server_option ws = (Returns (Inr (conn', rdr')), ws1)"
    and "await (send_all Rc C ms) (\<lambda>_. close_connection Rc) (conn_writer conn, wc1) = (r, (sdr, wc2))"
    and "incoming (views ws) = drop (length (outgoing (viewc wc))) (outgoing (viewc wc1))
           @ drop (length (outgoing (viewc wc1))) (outgoing (viewc wc2))"
    and "incoming (viewc wc) = drop (length (outgoing (views ws))) (outgoing (views ws1)) @ later"
    and "connection Rs views" "listening (views ws)" "message_codec C I synced"
    and "compatible C synced ccfg scfg dec enc" "\<forall>m\<in>set ms. sendable ccfg m"
  shows "r = Returns (Inr ())
    \<and> (\<exists>rdr2 ws2. reader_task Rs I (rdr', ws1) = (Returns (), (rdr2, ws2))
         \<and> delivered (views ws2) = delivered (views ws) @ map Inr ms)"
proof -
  let ?x = "agreement scfg ccfg"
  note shaken = handshake_run [OF assms(1-18,20,21)]
  then have c: "conn_writer conn = new_ws_writer \<lparr>kind = Client\<rparr> (ccfg\<lparr>ws_extensions := ?x\<rparr>) enc"
    and s: "rdr' = new_read_stream \<lparr>kind = Server\<rparr> (scfg\<lparr>ws_extensions := ?x\<rparr>) dec"
    by simp_all
  from shaken obtain request response where
    vc: "viewc wc1 = (viewc wc)\<lparr>incoming := later, outgoing := outgoing (viewc wc) @ request\<rparr>" and
    vs: "views ws1 = (views ws)\<lparr>incoming := drop (length (outgoing (viewc wc1))) (outgoing (viewc wc2)),
        outgoing := outgoing (views ws) @ response\<rparr>" by blast
  have sink: "byte_sink Rc viewc" using assms(2) by (simp add: line_source_def)
  have ok: "\<forall>m\<in>set ms. sendable (sw_config (conn_writer conn)) m"
    using assms(26) by (simp add: c new_ws_writer_def sendable_def message_limit_def)
  have p: "paired synced (conn_writer conn) rdr'" "compression_fits C synced (conn_writer conn) rdr'"
    unfolding c s by (rule compatible_paired [OF assms(25)])+
  from session_run [OF sink assms(22,24), OF p ok _ assms(19), of ws1] vc vs assms(14-16,23)
  obtain reply rdr2 ws2 where "r = Returns (Inr ())"
    "poll_messages Rs I (rdr', ws1) = Some (Returns (Inr ()), (rdr2, ws2))"
    "views ws2 = (views ws1)\<lparr>incoming := [], delivered := delivered (views ws1) @ map Inr ms,
        outgoing := outgoing (views ws1) @ reply\<rparr>" by auto
  with vs show ?thesis by (auto simp: reader_task_ends)
qed

lemma sim_synced: "stored_synced sim_enc sim_dec"
  by (simp add: stored_synced_def sim_dec_def sim_enc_def)

text \<open>
  A whole conversation of the simulated world: two messages and a close frame, in the terms of
  the hypotheses above.
\<close>

definition sim_messages :: "message list" where
  "sim_messages = [message.Text [72, 105], message.Binary [1, 2, 3]]"

lemma sim_cfgs:
  "zip_config 20 = client_web_socket_config (unwrap_or default_client_config
     (Some \<lparr>client_web_socket_config = zip_config 20, ca_file = None\<rparr>))"
  "zip_config 200 = unwrap_or default_web_socket_config (Some (zip_config 200))"
  by simp_all

lemma sim_compatible:
  "compatible stored_deflater stored_synced (zip_config 20) (zip_config 200) sim_dec sim_enc"
  using sim_synced
  by (auto simp: compatible_def zip_config_def frame_limit_def message_limit_def dest!: stored_compress)

lemma sim_sendable: "\<forall>m\<in>set sim_messages. sendable (zip_config 20) m"
  by (simp add: sim_messages_def sendable_def zip_config_def message_limit_def message_ok_def
      valid_string_def is_scalar_def as_binary_def encode_utf8_def encode_char_def)

lemma sim_talk:
  obtains in_c wc1 r sdr wc2 in_s ws1 where
    "sim_connect (sim_peer in_c)
       = (Returns (Inr (second_stage_handshake Client (zip_config 20) sim_dec sim_enc)), wc1)"
    "sim_accept (sim_peer in_s)
       = (Returns (Inr (second_stage_handshake Server (zip_config 200) sim_dec sim_enc)), ws1)"
    "await (send_all sim_runtime stored_deflater sim_messages) (\<lambda>_. close_connection sim_runtime)
       (conn_writer (fst (second_stage_handshake Client (zip_config 20) sim_dec sim_enc)), wc1)
     = (r, (sdr, wc2))"
    "incoming (sim_view (sim_peer in_s)) = drop (length (outgoing (sim_view (sim_peer in_c))))
       (outgoing (sim_view wc1)) @ drop (length (outgoing (sim_view wc1))) (outgoing (sim_view wc2))"
    "incoming (sim_view (sim_peer in_c))
       = drop (length (outgoing (sim_view (sim_peer in_s)))) (outgoing (sim_view ws1)) @ []"
proof -
  obtain request response where scene:
    "\<And>rest rc wc. sim_connect (sim_peer (response @ rest)) = (rc, wc) \<Longrightarrow> outgoing (sim_view wc) = request"
    "\<And>rest rs ws. sim_accept (sim_peer (request @ rest)) = (rs, ws) \<Longrightarrow> outgoing (sim_view ws) = response"
    by (rule sim_scene) blast
  obtain rc wc1 where c: "sim_connect (sim_peer (response @ [])) = (rc, wc1)" by (metis surj_pair)
  obtain r sdr wc2 where t: "await (send_all sim_runtime stored_deflater sim_messages)
      (\<lambda>_. close_connection sim_runtime)
      (conn_writer (fst (second_stage_handshake Client (zip_config 20) sim_dec sim_enc)), wc1)
      = (r, (sdr, wc2))" by (metis surj_pair)
  let ?rest = "drop (length (outgoing (sim_view wc1))) (outgoing (sim_view wc2))"
  obtain rs ws1 where s: "sim_accept (sim_peer (request @ ?rest)) = (rs, ws1)" by (metis surj_pair)
  have inp: "incoming (sim_view (sim_peer (request @ ?rest))) = drop (length (outgoing
      (sim_view (sim_peer (response @ []))))) (outgoing (sim_view wc1)) @ ?rest"
    using scene(1) [OF c] by simp
  have ic: "incoming (sim_view (sim_peer (response @ []))) = drop (length (outgoing
      (sim_view (sim_peer (request @ ?rest))))) (outgoing (sim_view ws1)) @ []"
    using scene(2) [OF s] by simp
  have h: "rc = Returns (Inr (second_stage_handshake Client (zip_config 20) sim_dec sim_enc))"
    "rs = Returns (Inr (second_stage_handshake Server (zip_config 200) sim_dec sim_enc))"
    using handshake_run [OF sim_library.handshake_library_axioms sim_lines.line_source_axioms
      sim_lines.line_source_axioms sim_reachable, OF sim_url _ _ sim_cfgs zip_enabling zip_enabling
      sim_codecs [unfolded sim_agreed_def] sim_peer_view(2,4) sim_peer_view(2,4)
      c [unfolded sim_connect_def] s [unfolded sim_accept_def] inp ic, of "lit ''h''"]
    by (simp_all add: zip_agreed sim_agreed_def [symmetric] del: second_stage_handshake_simps)
  show ?thesis by (rule that [OF c [unfolded h(1)] s [unfolded h(2)] t inp ic])
qed

lemma sim_session:
  obtains bs conn rdr w1 rdr2 w2 where "sim_accept (sim_peer bs) = (Returns (Inr (conn, rdr)), w1)"
    "reader_task sim_runtime stored_inflater (rdr, w1) = (Returns (), (rdr2, w2))"
    "mailbox w2 = map Inr sim_messages" "conn_writer conn = new_ws_writer \<lparr>kind = Server\<rparr> (zip_config 200) sim_enc"
proof -
  obtain in_c wc1 r sdr wc2 in_s ws1 where talk:
    "sim_connect (sim_peer in_c)
       = (Returns (Inr (second_stage_handshake Client (zip_config 20) sim_dec sim_enc)), wc1)"
    "sim_accept (sim_peer in_s)
       = (Returns (Inr (second_stage_handshake Server (zip_config 200) sim_dec sim_enc)), ws1)"
    "await (send_all sim_runtime stored_deflater sim_messages) (\<lambda>_. close_connection sim_runtime)
       (conn_writer (fst (second_stage_handshake Client (zip_config 20) sim_dec sim_enc)), wc1)
     = (r, (sdr, wc2))"
    "incoming (sim_view (sim_peer in_s)) = drop (length (outgoing (sim_view (sim_peer in_c))))
       (outgoing (sim_view wc1)) @ drop (length (outgoing (sim_view wc1))) (outgoing (sim_view wc2))"
    "incoming (sim_view (sim_peer in_c))
       = drop (length (outgoing (sim_view (sim_peer in_s)))) (outgoing (sim_view ws1)) @ []"
    by (rule sim_talk)
  from connection_run [OF sim_library.handshake_library_axioms sim_lines.line_source_axioms
      sim_lines.line_source_axioms sim_reachable, OF sim_url _ _ sim_cfgs zip_enabling zip_enabling
      sim_codecs [unfolded sim_agreed_def] sim_peer_view(2,4) sim_peer_view(2,4)
      talk(1) [unfolded sim_connect_def second_stage_handshake_simps]
      talk(2) [unfolded sim_accept_def second_stage_handshake_simps] _ talk(4,5)
      sim.connection_axioms sim_peer_view(6) stored.message_codec_axioms sim_compatible sim_sendable,
      of "lit ''h''" r sdr] talk(3)
  obtain rdr2 ws2 where "reader_task sim_runtime stored_inflater
      (snd (second_stage_handshake Server (zip_config 200) sim_dec sim_enc), ws1) = (Returns (), (rdr2, ws2))"
    "delivered (sim_view ws2) = map Inr sim_messages" by auto
  with talk(2) that show ?thesis by (auto simp: sim_view_def)
qed

section \<open>Properties\<close>



text \<open>
  \<^bold>\<open>C1.\<close> A whole connection: the client connects with \<open>connect_async_with_config\<close>, the server
  accepts with \<open>accept_async_with_config\<close>, the client sends any messages and closes. Then the
  server's reader task ends without an error and its user has received exactly these messages.
\<close>

theorem connection_delivers:
  assumes "handshake_library L" "line_source Rc viewc Hc" "line_source Rs views Hs" "reachable viewc N"
    and "parse_url L addr = Inr u" "url_host u = Some host" "url_scheme u = lit ''ws''"
    and "ccfg = client_web_socket_config (unwrap_or default_client_config client_option)"
    and "scfg = unwrap_or default_web_socket_config server_option" "enabling ccfg" "enabling scfg"
    and "codecs I C (agreement scfg ccfg) dec enc"
    and "punctual (viewc wc)" "writable (viewc wc)" "punctual (views ws)" "writable (views ws)"
    and "connect_async_with_config Rc Hc L N I C addr client_option wc = (Returns (Inr (conn, rdr)), wc1)"
    and "accept_async_with_config Rs Hs L I C server_option ws = (Returns (Inr (conn', rdr')), ws1)"
    and "await (send_all Rc C ms) (\<lambda>_. close_connection Rc) (conn_writer conn, wc1) = (r, (sdr, wc2))"
    and "incoming (views ws) = drop (length (outgoing (viewc wc))) (outgoing (viewc wc1))
           @ drop (length (outgoing (viewc wc1))) (outgoing (viewc wc2))"
    and "incoming (viewc wc) = drop (length (outgoing (views ws))) (outgoing (views ws1)) @ later"
    and "connection Rs views" "listening (views ws)" "message_codec C I synced"
    and "compatible C synced ccfg scfg dec enc" "\<forall>m\<in>set ms. sendable ccfg m"
  shows "r = Returns (Inr ())
    \<and> (\<exists>rdr2 ws2. reader_task Rs I (rdr', ws1) = (Returns (), (rdr2, ws2))
         \<and> delivered (views ws2) = delivered (views ws) @ map Inr ms)"
  by (rule connection_run [OF assms])

theorem connection_delivers_witness:
  "\<exists>wc conn rdr wc1 ws conn' rdr' ws1 rdr2 ws2.
      sim_connect wc = (Returns (Inr (conn, rdr)), wc1)
    \<and> sim_accept ws = (Returns (Inr (conn', rdr')), ws1)
    \<and> reader_task sim_runtime stored_inflater (rdr', ws1) = (Returns (), (rdr2, ws2))
    \<and> mailbox ws2 = map Inr sim_messages"
proof -
  obtain in_c wc1 r sdr wc2 in_s ws1 where talk:
    "sim_connect (sim_peer in_c)
       = (Returns (Inr (second_stage_handshake Client (zip_config 20) sim_dec sim_enc)), wc1)"
    "sim_accept (sim_peer in_s)
       = (Returns (Inr (second_stage_handshake Server (zip_config 200) sim_dec sim_enc)), ws1)"
    "await (send_all sim_runtime stored_deflater sim_messages) (\<lambda>_. close_connection sim_runtime)
       (conn_writer (fst (second_stage_handshake Client (zip_config 20) sim_dec sim_enc)), wc1)
     = (r, (sdr, wc2))"
    "incoming (sim_view (sim_peer in_s)) = drop (length (outgoing (sim_view (sim_peer in_c))))
       (outgoing (sim_view wc1)) @ drop (length (outgoing (sim_view wc1))) (outgoing (sim_view wc2))"
    "incoming (sim_view (sim_peer in_c))
       = drop (length (outgoing (sim_view (sim_peer in_s)))) (outgoing (sim_view ws1)) @ []"
    by (rule sim_talk)
  from connection_delivers [OF sim_library.handshake_library_axioms sim_lines.line_source_axioms
      sim_lines.line_source_axioms sim_reachable, OF sim_url _ _ sim_cfgs zip_enabling zip_enabling
      sim_codecs [unfolded sim_agreed_def] sim_peer_view(2,4) sim_peer_view(2,4)
      talk(1) [unfolded sim_connect_def second_stage_handshake_simps]
      talk(2) [unfolded sim_accept_def second_stage_handshake_simps] _ talk(4,5)
      sim.connection_axioms sim_peer_view(6) stored.message_codec_axioms sim_compatible sim_sendable,
      of "lit ''h''" r sdr] talk(3)
  obtain rdr2 ws2 where "reader_task sim_runtime stored_inflater
      (snd (second_stage_handshake Server (zip_config 200) sim_dec sim_enc), ws1) = (Returns (), (rdr2, ws2))"
    "delivered (sim_view ws2) = map Inr sim_messages" by auto
  with talk(1,2) show ?thesis by (fastforce simp: sim_view_def)
qed

text \<open>
  \<^bold>\<open>C35.\<close> A client whose configured extensions do not ask for compression cannot use its
  connection: the server completes the handshake, but the second line end the client wrote after
  its request is read as a frame header, and the server's user receives \<open>InvalidOpcode\<close> as the
  only item, whatever the client sends.
\<close>

theorem disabled_extensions_break_connection:
  assumes "handshake_library L" "line_source R view H" "connection R view"
    and "requests L addr key (Some e) request" "\<not> permessage_deflate e" "codecs I C None dec enc"
    and "punctual (view w)" "writable (view w)" "listening (view w)"
    and "incoming (view w) = encode_utf8 request @ rest"
  shows "\<exists>conn rdr w1 w2. accept_async_with_config R H L I C server_option w = (Returns (Inr (conn, rdr)), w1)
    \<and> reader_task R I (rdr, w1) = (Returns (), (rdr, w2))
    \<and> delivered (view w2) = delivered (view w) @ [Inl InvalidOpcode]"
proof -
  let ?cc = "default_web_socket_config\<lparr>ws_extensions := Some e\<rparr>"
  have a: "agreement s ?cc = None" for s using assms(5) by (simp add: agreement_def seen_def)
  have q: "requests L addr key (ws_extensions ?cc) request" using assms(4) by simp
  have x: "encode_utf8 (extra_crlf (Some e)) = [13, 10]"
    using assms(5) by (simp add: extra_crlf_def encode_char_def byte_def)
  from accept_run [OF assms(2,1) q assms(7,8,10) refl,
      where I = I and C = C and dec = dec and enc = enc and server_option = server_option] assms(6)
  obtain conn rdr w1 where w1:
    "accept_async_with_config R H L I C server_option w = (Returns (Inr (conn, rdr)), w1)"
    "incoming (view w1) = [13, 10] @ rest" "punctual (view w1)" "listening (view w1)"
    "delivered (view w1) = delivered (view w)"
    using assms(7,9) by (auto simp: a x)
  obtain w2 where "reader_task R I (rdr, w1) = (Returns (), (rdr, w2))"
    "delivered (view w2) = delivered (view w1) @ [Inl InvalidOpcode]"
    by (rule connection.reader_task_stray [OF assms(3) w1(3,2,4)])
  with w1(1,5) show ?thesis by auto
qed

theorem disabled_extensions_break_connection_witness:
  "\<exists>request conn rdr w1 w2.
      sim_accept (sim_peer (encode_utf8 request @ [0x81, 0])) = (Returns (Inr (conn, rdr)), w1)
    \<and> reader_task sim_runtime stored_inflater (rdr, w1) = (Returns (), (rdr, w2))
    \<and> mailbox w2 = [Inl InvalidOpcode]"
proof -
  have k: "visible (lit ''k'')" "lit ''k'' \<noteq> []" by (simp_all add: visible_def)
  obtain request address where req:
    "requests sim_library (lit ''ws://h/p'') (lit ''k'') (Some default_extensions) request"
    by (rule request_for_key [OF sim_url _ _ k, of "lit ''h''"]) simp_all
  have d: "\<not> permessage_deflate default_extensions" "codecs stored_inflater stored_deflater None sim_dec sim_enc"
    by (simp_all add: default_extensions_def codecs_def new_decoder_def new_encoder_def sim_dec_def
        sim_enc_def stored_inflater_def stored_deflater_def)
  note breaks = disabled_extensions_break_connection [OF sim_library.handshake_library_axioms
      sim_lines.line_source_axioms sim.connection_axioms, OF req d sim_peer_view(2,4,6,1),
      where server_option = "Some (zip_config 200)"]
  from breaks [of "[0x81, 0]"] obtain conn rdr w1 w2 where
    "sim_accept (sim_peer (encode_utf8 request @ [0x81, 0])) = (Returns (Inr (conn, rdr)), w1)"
    "reader_task sim_runtime stored_inflater (rdr, w1) = (Returns (), (rdr, w2))"
    "delivered (sim_view w2) = [Inl InvalidOpcode]"
    by (auto simp: sim_accept_def)
  moreover from this(3) have "mailbox w2 = [Inl InvalidOpcode]" by (simp add: sim_view_def)
  ultimately show ?thesis by blast
qed

text \<open>
  \<^bold>\<open>C36.\<close> A client takes the two context-takeover parameters for each other: its encoder resets
  its context when the agreed \<open>server_no_context_takeover\<close> is set and its decoder when
  \<open>client_no_context_takeover\<close> is, where the documentation of \<open>Extensions\<close> has it the other way
  round for a client.
\<close>

theorem client_takeover_swapped:
  assumes "connect_async_with_config R H L N I C addr client_option w = (Returns (Inr (conn, rdr)), w')"
    and "ws_extensions (sw_config (conn_writer conn)) = Some e"
  shows "c_reset_context (sw_encoder (conn_writer conn)) = unwrap_or False (server_no_context_takeover e)
    \<and> d_reset_context (rs_decoder rdr) = unwrap_or False (client_no_context_takeover e)"
  using assms
  by (auto simp: connect_async_with_config_def await_Inr_iff or_panic_def new_decoder_def new_encoder_def
      new_ws_writer_def new_read_stream_def ok_def panic_def Let_def split: option.splits prod.splits)

theorem client_takeover_swapped_witness:
  "\<exists>wc conn rdr wc'. sim_connect wc = (Returns (Inr (conn, rdr)), wc')
     \<and> c_reset_context (sw_encoder (conn_writer conn))
       = unwrap_or False (server_no_context_takeover (default_extensions\<lparr>permessage_deflate := True\<rparr>))"
proof -
  obtain wc wc' where c: "sim_connect wc
      = (Returns (Inr (second_stage_handshake Client (zip_config 20) sim_dec sim_enc)), wc')"
    by (rule sim_connected)
  have e: "ws_extensions (sw_config (conn_writer (fst (second_stage_handshake Client (zip_config 20)
      sim_dec sim_enc)))) = Some (default_extensions\<lparr>permessage_deflate := True\<rparr>)"
    by (simp add: new_ws_writer_def zip_config_def)
  from client_takeover_swapped [OF c [unfolded sim_connect_def second_stage_handshake_simps]] e c
  show ?thesis by (fastforce simp: zip_config_def new_ws_writer_def)
qed

end
