(* ===== verification/Connection.thy ===== *)
theory Connection
  imports Established
begin

text \<open>
  \<open>src/connection.rs\<close> and the reader of \<open>src/split.rs\<close>: the methods of the connection a user
  holds. Every one runs the method of its writer or of its reader, so it is the writer's method
  on the pair of the connection's writer and the world, and puts the writer back.
\<close>

section \<open>The receiving end\<close>

text \<open>
  \<open>poll_next\<close> of tokio's \<open>ReceiverStream\<close> is a parameter: an item, \<open>None\<close> when the channel is
  closed and empty, or not yet ready (\<open>Hangs\<close>).
\<close>

type_synonym 'w receiving = "receiver_stream \<Rightarrow> 'w \<Rightarrow> (error + message) option outcome \<times> 'w"

definition reader_poll_next :: "'w receiving \<Rightarrow> ws_reader \<Rightarrow> 'w \<Rightarrow> (error + message) option outcome \<times> 'w" where
  "reader_poll_next poll rdr = poll (read_rx rdr)"

definition connection_poll_next ::
  "'w receiving \<Rightarrow> 'c ws_connection \<times> 'w \<Rightarrow> (error + message) option outcome \<times> ('c ws_connection \<times> 'w)" where
  "connection_poll_next poll s =
     (case reader_poll_next poll (conn_reader (fst s)) (snd s) of (r, w) \<Rightarrow> (r, (fst s, w)))"

section \<open>Sending\<close>

definition split_connection :: "'c ws_connection \<Rightarrow> ws_reader \<times> 'c ws_writer" where
  "split_connection conn = (conn_reader conn, conn_writer conn)"

text \<open>A method that runs on the field \<open>self.writer\<close>.\<close>

definition on_writer :: "('c, 'w, 'a) sending \<Rightarrow> ('c ws_connection \<times> 'w, error, 'a) async" where
  "on_writer m s =
     (let (r, (wtr, w)) = m (conn_writer (fst s), snd s) in (r, ((fst s)\<lparr>conn_writer := wtr\<rparr>, w)))"

definition connection_close :: "'w runtime \<Rightarrow> ('c ws_connection \<times> 'w, error, unit) async" where
  "connection_close R = on_writer (close_connection R)"

definition connection_send_message ::
  "'w runtime \<Rightarrow> 'c deflater \<Rightarrow> message \<Rightarrow> ('c ws_connection \<times> 'w, error, unit) async" where
  "connection_send_message R C m = on_writer (send_message R C m)"

definition connection_send :: "'w runtime \<Rightarrow> 'c deflater \<Rightarrow> bytes \<Rightarrow> ('c ws_connection \<times> 'w, error, unit) async" where
  "connection_send R C data = on_writer (send R C data)"

definition connection_send_as_binary ::
  "'w runtime \<Rightarrow> 'c deflater \<Rightarrow> bytes \<Rightarrow> ('c ws_connection \<times> 'w, error, unit) async" where
  "connection_send_as_binary R C data = on_writer (send_as_binary R C data)"

definition connection_send_as_text ::
  "'w runtime \<Rightarrow> 'c deflater \<Rightarrow> rstring \<Rightarrow> ('c ws_connection \<times> 'w, error, unit) async" where
  "connection_send_as_text R C data = on_writer (send_as_text R C data)"

definition connection_send_ping :: "'w runtime \<Rightarrow> ('c ws_connection \<times> 'w, error, unit) async" where
  "connection_send_ping R = on_writer (send_ping R)"

definition connection_send_large_data_fragmented ::
  "'w runtime \<Rightarrow> 'c deflater \<Rightarrow> bytes \<Rightarrow> nat \<Rightarrow> ('c ws_connection \<times> 'w, error, unit) async" where
  "connection_send_large_data_fragmented R C data fragment_size =
     on_writer (send_large_data_fragmented R C data fragment_size)"

text \<open>Sending leaves the reader of the connection alone, and a split connection sends the same.\<close>

lemma on_writer_iff:
  "on_writer m (conn, w) = (r, (conn', w')) \<longleftrightarrow>
     m (snd (split_connection conn), w) = (r, (snd (split_connection conn'), w'))
     \<and> fst (split_connection conn') = fst (split_connection conn)"
  by (cases conn; cases conn'; cases "m (conn_writer conn, w)")
     (auto simp: on_writer_def split_connection_def Let_def)

end
