(* ===== verification/Echo.thy ===== *)
theory Echo
  imports Connection
begin

text \<open>
  The example programs on a single connection: \<open>echo_server.rs\<close> and its variants, which send
  back what they receive, and the clients \<open>autobahn_client.rs\<close>, \<open>continue_client.rs\<close>,
  \<open>crypto_client.rs\<close>, \<open>client.rs\<close> and \<open>client_tls.rs\<close>. The reader
  task of the connection runs beside them; what it delivers is seen through \<open>poll_next\<close>. Logging is left out, but for the arguments it evaluates.
\<close>

section \<open>Echo servers (echo_server.rs, echo_server_tls.rs, autobahn_server.rs)\<close>

text \<open>\<open>while let Some(result) = ws_connection.next().await\<close>; \<open>None\<close> would be a loop for ever.\<close>

partial_function (option) echo_loop ::
  "'w runtime \<Rightarrow> 'c deflater \<Rightarrow> 'w receiving \<Rightarrow> 'c ws_connection \<times> 'w
     \<Rightarrow> (unit outcome \<times> ('c ws_connection \<times> 'w)) option" where
  "echo_loop R C poll s =
     (case connection_poll_next poll s of
        (Returns (Some (Inr m)), s1) \<Rightarrow>
          (case connection_send_message R C m s1 of
             (Returns (Inr _), s2) \<Rightarrow> echo_loop R C poll s2
           | (Returns (Inl _), s2) \<Rightarrow> Some (Returns (), s2)
           | (Hangs, s2) \<Rightarrow> Some (Hangs, s2)
           | (Panics, s2) \<Rightarrow> Some (Panics, s2))
      | (Returns (Some (Inl _)), s1) \<Rightarrow> Some (Returns (), s1)
      | (Returns None, s1) \<Rightarrow> Some (Returns (), s1)
      | (Hangs, s1) \<Rightarrow> Some (Hangs, s1)
      | (Panics, s1) \<Rightarrow> Some (Panics, s1))"

declare echo_loop.simps [code]

text \<open>What follows \<open>match accept_async(..).await\<close>.\<close>

definition serve ::
  "'w runtime \<Rightarrow> 'c deflater \<Rightarrow> 'w receiving \<Rightarrow> (error + 'c ws_connection \<times> 'd read_stream) outcome \<times> 'w
     \<Rightarrow> (unit outcome \<times> 'w) option" where
  "serve R C poll shaken =
     (case shaken of
        (Returns (Inr (conn, rdr)), w) \<Rightarrow> map_option (map_prod id snd) (echo_loop R C poll (conn, w))
      | (Returns (Inl e), w) \<Rightarrow> Some (Returns (), w)
      | (Hangs, w) \<Rightarrow> Some (Hangs, w)
      | (Panics, w) \<Rightarrow> Some (Panics, w))"

definition handle_connection ::
  "'w runtime \<Rightarrow> 'w line_io \<Rightarrow> library \<Rightarrow> 'd inflater \<Rightarrow> 'c deflater \<Rightarrow> 'w receiving \<Rightarrow> 'w
     \<Rightarrow> (unit outcome \<times> 'w) option" where
  "handle_connection R H L I C poll w = serve R C poll (accept_async R H L I C w)"

definition autobahn_config :: web_socket_config where
  "autobahn_config = default_web_socket_config\<lparr>ws_extensions :=
     Some \<lparr>permessage_deflate = True, client_no_context_takeover = Some True,
       server_no_context_takeover = Some True, client_max_window_bits = None,
       server_max_window_bits = None\<rparr>\<rparr>"

definition autobahn_handle_connection ::
  "'w runtime \<Rightarrow> 'w line_io \<Rightarrow> library \<Rightarrow> 'd inflater \<Rightarrow> 'c deflater \<Rightarrow> 'w receiving \<Rightarrow> 'w
     \<Rightarrow> (unit outcome \<times> 'w) option" where
  "autobahn_handle_connection R H L I C poll w =
     serve R C poll (accept_async_with_config R H L I C (Some autobahn_config) w)"

section \<open>autobahn\_client.rs\<close>

definition get_config :: client_config where
  "get_config = default_client_config\<lparr>client_web_socket_config := autobahn_config\<rparr>"

definition AGENT :: rstring where
  "AGENT = lit ''socket-flow''"

text \<open>The loop of \<open>run_test\<close>: as above, but errors are returned.\<close>

partial_function (option) test_loop ::
  "'w runtime \<Rightarrow> 'c deflater \<Rightarrow> 'w receiving \<Rightarrow> 'c ws_connection \<times> 'w
     \<Rightarrow> ((error + unit) outcome \<times> ('c ws_connection \<times> 'w)) option" where
  "test_loop R C poll s =
     (case connection_poll_next poll s of
        (Returns (Some (Inr m)), s1) \<Rightarrow>
          (case connection_send_message R C m s1 of
             (Returns (Inr _), s2) \<Rightarrow> test_loop R C poll s2
           | (Returns (Inl e), s2) \<Rightarrow> Some (Returns (Inl e), s2)
           | (Hangs, s2) \<Rightarrow> Some (Hangs, s2)
           | (Panics, s2) \<Rightarrow> Some (Panics, s2))
      | (Returns (Some (Inl e)), s1) \<Rightarrow> Some (Returns (Inl e), s1)
      | (Returns None, s1) \<Rightarrow> Some (Returns (Inr ()), s1)
      | (Hangs, s1) \<Rightarrow> Some (Hangs, s1)
      | (Panics, s1) \<Rightarrow> Some (Panics, s1))"

declare test_loop.simps [code]

definition run_test ::
  "'w runtime \<Rightarrow> 'w line_io \<Rightarrow> library \<Rightarrow> ('w, 'cert, 'store, 'name) network \<Rightarrow> 'd inflater \<Rightarrow> 'c deflater
     \<Rightarrow> 'w receiving \<Rightarrow> nat \<Rightarrow> 'w \<Rightarrow> ((error + unit) outcome \<times> 'w) option" where
  "run_test R H L N I C poll case_no w =
     (let case_url = lit ''ws://127.0.0.1:9001/runCase?case='' @ show_nat case_no @ lit ''&agent='' @ AGENT in
      case connect_async_with_config R H L N I C case_url (Some get_config) w of
        (Returns (Inr (conn, rdr)), w1) \<Rightarrow> map_option (map_prod id snd) (test_loop R C poll (conn, w1))
      | (Returns (Inl e), w1) \<Rightarrow> Some (Returns (Inl e), w1)
      | (Hangs, w1) \<Rightarrow> Some (Hangs, w1)
      | (Panics, w1) \<Rightarrow> Some (Panics, w1))"

text \<open>The test cases one after the other; a case that fails is logged.\<close>

fun run_tests ::
  "'w runtime \<Rightarrow> 'w line_io \<Rightarrow> library \<Rightarrow> ('w, 'cert, 'store, 'name) network \<Rightarrow> 'd inflater \<Rightarrow> 'c deflater
     \<Rightarrow> 'w receiving \<Rightarrow> nat list \<Rightarrow> 'w \<Rightarrow> (unit outcome \<times> 'w) option" where
  "run_tests R H L N I C poll [] w = Some (Returns (), w)"
| "run_tests R H L N I C poll (n # ns) w =
     (case run_test R H L N I C poll n w of
        Some (Returns _, w1) \<Rightarrow> run_tests R H L N I C poll ns w1
      | Some (Hangs, w1) \<Rightarrow> Some (Hangs, w1)
      | Some (Panics, w1) \<Rightarrow> Some (Panics, w1)
      | None \<Rightarrow> None)"

text \<open>Code that runs on a connection once it is there, and drops it in the end.\<close>

definition with_connection ::
  "('w, error, 'c ws_connection \<times> 'd read_stream) async \<Rightarrow> ('c ws_connection \<times> 'w, error, 'a) async
     \<Rightarrow> ('w, error, 'a) async" where
  "with_connection connect body =
     await connect (\<lambda>(conn, rdr) w. case body (conn, w) of (r, (conn', w')) \<Rightarrow> (r, w'))"

definition update_reports ::
  "'w runtime \<Rightarrow> 'w line_io \<Rightarrow> library \<Rightarrow> ('w, 'cert, 'store, 'name) network \<Rightarrow> 'd inflater \<Rightarrow> 'c deflater
     \<Rightarrow> ('w, error, unit) async" where
  "update_reports R H L N I C =
     with_connection
       (connect_async_with_config R H L N I C
          (lit ''ws://127.0.0.1:9001/updateReports?agent='' @ AGENT) (Some get_config))
       (connection_close R)"

text \<open>\<open>connection.next().await.unwrap()?\<close>\<close>

definition next_unwrapped :: "'w receiving \<Rightarrow> ('c ws_connection \<times> 'w, error, message) async" where
  "next_unwrapped poll s =
     (case connection_poll_next poll s of
        (Returns (Some (Inr m)), s1) \<Rightarrow> (Returns (Inr m), s1)
      | (Returns (Some (Inl e)), s1) \<Rightarrow> (Returns (Inl e), s1)
      | (Returns None, s1) \<Rightarrow> (Panics, s1)
      | (Hangs, s1) \<Rightarrow> (Hangs, s1)
      | (Panics, s1) \<Rightarrow> (Panics, s1))"

definition parse_u32 :: "rstring \<Rightarrow> nat option" where
  "parse_u32 s =
     (let d = strip_plus s in
      if d \<noteq> [] \<and> list_all is_digit d \<and> decimal_value d < 2 ^ 32 then Some (decimal_value d) else None)"

definition get_case_count ::
  "'w runtime \<Rightarrow> 'w line_io \<Rightarrow> library \<Rightarrow> ('w, 'cert, 'store, 'name) network \<Rightarrow> 'd inflater \<Rightarrow> 'c deflater
     \<Rightarrow> 'w receiving \<Rightarrow> ('w, error, nat) async" where
  "get_case_count R H L N I C poll =
     with_connection
       (connect_async_with_config R H L N I C (lit ''ws://localhost:9001/getCaseCount'') (Some get_config))
       (await (next_unwrapped poll) (\<lambda>msg.
        await (connection_close R) (\<lambda>_.
        await (of_result (as_text msg)) (\<lambda>text_message.
        or_panic (parse_u32 text_message)))))"

text \<open>\<open>expect\<close> on a result that has been awaited, and \<open>main\<close>.\<close>

fun expect :: "(error + 'a) outcome \<times> 's \<Rightarrow> 'a outcome \<times> 's" where
  "expect (Returns (Inr a), s) = (Returns a, s)"
| "expect (Returns (Inl _), s) = (Panics, s)"
| "expect (Hangs, s) = (Hangs, s)"
| "expect (Panics, s) = (Panics, s)"

definition autobahn_client_main ::
  "'w runtime \<Rightarrow> 'w line_io \<Rightarrow> library \<Rightarrow> ('w, 'cert, 'store, 'name) network \<Rightarrow> 'd inflater \<Rightarrow> 'c deflater
     \<Rightarrow> 'w receiving \<Rightarrow> 'w \<Rightarrow> (unit outcome \<times> 'w) option" where
  "autobahn_client_main R H L N I C poll w =
     (case expect (get_case_count R H L N I C poll w) of
        (Returns case_count, w1) \<Rightarrow>
          (case run_tests R H L N I C poll [1..<Suc case_count] w1 of
             Some (Returns _, w2) \<Rightarrow> Some (expect (update_reports R H L N I C w2))
           | r \<Rightarrow> r)
      | (Hangs, w1) \<Rightarrow> Some (Hangs, w1)
      | (Panics, w1) \<Rightarrow> Some (Panics, w1))"

lemma run_tests_append:
  "run_tests R H L N I C poll (ns @ ms) w =
     (case run_tests R H L N I C poll ns w of Some (Returns _, w1) \<Rightarrow> run_tests R H L N I C poll ms w1 | r \<Rightarrow> r)"
  by (induction ns arbitrary: w) (auto split: option.splits outcome.splits)

section \<open>continue\_client.rs and crypto\_client.rs\<close>

text \<open>A failing send is logged, a failing close is unwrapped; the random string is a parameter.\<close>

definition continue_session :: "'w runtime \<Rightarrow> 'c deflater \<Rightarrow> rstring \<Rightarrow> 'c ws_connection \<times> 'w
     \<Rightarrow> unit outcome \<times> ('c ws_connection \<times> 'w)" where
  "continue_session R C my_random_string s =
     (case connection_send_large_data_fragmented R C (encode_utf8 my_random_string) 1 s of
        (Returns _, s1) \<Rightarrow>
          (case connection_close R s1 of
             (Returns (Inr _), s2) \<Rightarrow> (Returns (), s2)
           | (Returns (Inl _), s2) \<Rightarrow> (Panics, s2)
           | (Hangs, s2) \<Rightarrow> (Hangs, s2)
           | (Panics, s2) \<Rightarrow> (Panics, s2))
      | (Hangs, s1) \<Rightarrow> (Hangs, s1)
      | (Panics, s1) \<Rightarrow> (Panics, s1))"

text \<open>
  \<open>message.as_text().unwrap()\<close> panics on a binary message that is not UTF-8. It is an argument of
  \<open>info!\<close>, evaluated only when that level is logged: \<open>info\<close> says whether it is.
\<close>

definition logged :: "bool \<Rightarrow> message \<Rightarrow> unit outcome" where
  "logged info m = (if info then (case as_text m of Inr _ \<Rightarrow> Returns () | Inl _ \<Rightarrow> Panics) else Returns ())"

partial_function (option) log_loop ::
  "bool \<Rightarrow> 'w receiving \<Rightarrow> 'c ws_connection \<times> 'w \<Rightarrow> (unit outcome \<times> ('c ws_connection \<times> 'w)) option" where
  "log_loop info poll s =
     (case connection_poll_next poll s of
        (Returns (Some (Inr m)), s1) \<Rightarrow>
          (case logged info m of Returns _ \<Rightarrow> log_loop info poll s1 | r \<Rightarrow> Some (r, s1))
      | (Returns (Some (Inl _)), s1) \<Rightarrow> Some (Returns (), s1)
      | (Returns None, s1) \<Rightarrow> Some (Returns (), s1)
      | (Hangs, s1) \<Rightarrow> Some (Hangs, s1)
      | (Panics, s1) \<Rightarrow> Some (Panics, s1))"

declare log_loop.simps [code]

section \<open>client.rs\<close>

text \<open>
  The loop of \<open>client.rs\<close> waits for a message or for a timer, whichever comes first; a stream that
  has ended only disables the first branch of the \<open>select!\<close>. The timer and the 30 random characters
  are those of the environment, so the loop is a step relation.
\<close>

text \<open>\<open>client_tls.rs\<close> has the same loop, on a connection that trusts the certificates of a file.\<close>

definition client_tls_connect ::
  "'w runtime \<Rightarrow> 'w line_io \<Rightarrow> library \<Rightarrow> ('w, 'cert, 'store, 'name) network \<Rightarrow> 'd inflater \<Rightarrow> 'c deflater
     \<Rightarrow> rstring \<Rightarrow> ('w, error, 'c ws_connection \<times> 'd read_stream) async" where
  "client_tls_connect R H L N I C addr =
     connect_async_with_config R H L N I C addr (Some (default_client_config\<lparr>ca_file := Some (lit ''ca.crt'')\<rparr>))"

datatype progress = Running | Ended | Panicked

record ('c, 'w) ticking =
  tk_state :: "'c ws_connection \<times> 'w"
  tk_counter :: nat
  tk_progress :: progress

definition is_alphanumeric :: "nat \<Rightarrow> bool" where
  "is_alphanumeric c \<longleftrightarrow> 48 \<le> c \<and> c \<le> 57 \<or> 65 \<le> c \<and> c \<le> 90 \<or> 97 \<le> c \<and> c \<le> 122"

definition ticking_start :: "'c ws_connection \<times> 'w \<Rightarrow> ('c, 'w) ticking" where
  "ticking_start s = \<lparr>tk_state = s, tk_counter = 0, tk_progress = Running\<rparr>"

inductive ticking_step ::
  "bool \<Rightarrow> 'w runtime \<Rightarrow> 'c deflater \<Rightarrow> 'w receiving \<Rightarrow> ('c, 'w) ticking \<Rightarrow> ('c, 'w) ticking \<Rightarrow> bool"
  for info :: bool and R :: "'w runtime" and C :: "'c deflater" and poll :: "'w receiving" where
  received: "tk_progress t = Running \<Longrightarrow>
     connection_poll_next poll (tk_state t) = (Returns (Some (Inr m)), s) \<Longrightarrow> logged info m = Returns () \<Longrightarrow>
     Suc (tk_counter t) < 3 \<Longrightarrow>
     ticking_step info R C poll t (t\<lparr>tk_state := s, tk_counter := Suc (tk_counter t)\<rparr>)"
| received_last: "tk_progress t = Running \<Longrightarrow>
     connection_poll_next poll (tk_state t) = (Returns (Some (Inr m)), s) \<Longrightarrow> logged info m = Returns () \<Longrightarrow>
     3 \<le> Suc (tk_counter t) \<Longrightarrow> connection_close R s = (Returns r, s') \<Longrightarrow>
     ticking_step info R C poll t \<lparr>tk_state = s', tk_counter = Suc (tk_counter t), tk_progress = Ended\<rparr>"
| received_no_text: "tk_progress t = Running \<Longrightarrow>
     connection_poll_next poll (tk_state t) = (Returns (Some (Inr m)), s) \<Longrightarrow> logged info m = Panics \<Longrightarrow>
     ticking_step info R C poll t (t\<lparr>tk_state := s, tk_progress := Panicked\<rparr>)"
| received_error: "tk_progress t = Running \<Longrightarrow>
     connection_poll_next poll (tk_state t) = (Returns (Some (Inl e)), s) \<Longrightarrow>
     ticking_step info R C poll t (t\<lparr>tk_state := s, tk_progress := Ended\<rparr>)"
| tick: "tk_progress t = Running \<Longrightarrow> length random_string = 30 \<Longrightarrow> list_all is_alphanumeric random_string \<Longrightarrow>
     connection_send R C (encode_utf8 random_string) (tk_state t) = (Returns r, s) \<Longrightarrow>
     ticking_step info R C poll t
       (t\<lparr>tk_state := s, tk_progress := (case r of Inr _ \<Rightarrow> Running | Inl _ \<Rightarrow> Ended)\<rparr>)"

inductive_cases ticking_cases: "ticking_step info R C poll t t'"

text \<open>The connection is closed at the third message and not before; nothing happens after the end.\<close>

lemma ticking_counter:
  "ticking_step info R C poll t t' \<Longrightarrow> tk_counter t < 3 \<Longrightarrow>
     tk_progress t = Running \<and> (tk_progress t' = Running \<longrightarrow> tk_counter t' < 3) \<and> tk_counter t' \<le> 3"
  by (auto elim: ticking_cases)

section \<open>What an echo relies on\<close>

text \<open>
  The receiving end of the channel: \<open>unread\<close> are the items waiting, \<open>closed\<close> that no more will
  come. Taking an item leaves the socket alone, and writing to the socket leaves the items alone.
\<close>

definition same_socket :: "link \<Rightarrow> link \<Rightarrow> bool" where
  "same_socket v v' \<longleftrightarrow> outgoing v' = outgoing v \<and> writable v' = writable v"

definition waiting ::
  "('w \<Rightarrow> (error + message) list) \<Rightarrow> ('w \<Rightarrow> bool) \<Rightarrow> (error + message) list \<Rightarrow> bool \<Rightarrow> 'w \<Rightarrow> bool" where
  "waiting unread closed xs c w \<longleftrightarrow> unread w = xs \<and> closed w = c"

text \<open>
  The end: an error or the end of the stream ends both loops, and \<open>run_test\<close> returns the error;
  while the stream is open they wait.
\<close>

definition loop_result :: "error list \<Rightarrow> bool \<Rightarrow> (error + unit) outcome" where
  "loop_result errs c = (case errs of e # _ \<Rightarrow> Returns (Inl e) | [] \<Rightarrow> if c then Returns (Inr ()) else Hangs)"

locale inbox = byte_sink R view for R :: "'w runtime" and view +
  fixes poll :: "'w receiving"
    and unread :: "'w \<Rightarrow> (error + message) list"
    and closed :: "'w \<Rightarrow> bool"
  assumes poll_item: "unread w = x # xs \<Longrightarrow> \<exists>w'. poll rx w = (Returns (Some x), w')
        \<and> unread w' = xs \<and> closed w' = closed w \<and> same_socket (view w) (view w')"
    and poll_none: "unread w = [] \<Longrightarrow> \<exists>w'. poll rx w = (if closed w then Returns None else Hangs, w')
        \<and> same_socket (view w) (view w')"
    and write_keeps: "unread (snd (write_all R bs w)) = unread w \<and> closed (snd (write_all R bs w)) = closed w"
    and random_keeps: "unread (snd (random_u8 R w)) = unread w \<and> closed (snd (random_u8 R w)) = closed w"
begin

lemma waiting_write [preserved]: "preserves (waiting unread closed xs c) (write_all R bs)"
  using write_keeps by (simp add: preserves_def waiting_def)

lemma waiting_draw [preserved]: "preserves (waiting unread closed xs c) (draw_u8 R)"
  using random_keeps by (simp add: preserves_def waiting_def draw_u8_def)

lemma waiting_write_frame [preserved]: "preserves (waiting unread closed xs c) (write_frame R wtr fr z)"
  unfolding write_frame_def write_frame_server_def write_frame_client_def wr_def Let_def
  by (cases "kind wtr") (auto intro!: preserved)

lemma waiting_write_loop [preserved]: "preserves (\<lambda>s. waiting unread closed xs c (snd s)) (write_loop R frs z)"
  by (induction frs arbitrary: z) (auto intro!: preserved)

lemma waiting_encoder [preserved]: "preserves (\<lambda>s. waiting unread closed xs c (snd s)) (run_encoder m)"
  by (auto simp: preserves_def run_encoder_def map_err_def split: prod.splits outcome.splits sum.splits)

lemma waiting_panic [preserved]: "preserves P panic"
  by (simp add: preserves_def panic_def)

lemma waiting_compression [preserved]: "preserves (\<lambda>s. waiting unread closed xs c (snd s)) (check_compression C data)"
  unfolding check_compression_def by (intro preserved)

lemma waiting_convert [preserved]: "preserves (\<lambda>s. waiting unread closed xs c (snd s)) (convert_to_frames C m)"
  unfolding convert_to_frames_def Let_def by (intro preserved) (auto intro!: preserved)

lemma waiting_send: "preserves (\<lambda>s. waiting unread closed xs c (snd s)) (send_message R C m)"
  unfolding send_message_def write_message_def write_frames_def by (intro preserved)

text \<open>One turn of either loop on a message that can be sent.\<close>

lemma echo_turn:
  assumes "connection Rc viewc" "message_codec C I synced" "paired synced (conn_writer conn) rdr"
    and "compression_fits C synced (conn_writer conn) rdr" "sendable (sw_config (conn_writer conn)) m"
    and "writable (view w)" "waiting unread closed (Inr m # xs) c w"
  obtains conn' w' out rdr' where "echo_loop R C poll (conn, w) = echo_loop R C poll (conn', w')"
    "test_loop R C poll (conn, w) = test_loop R C poll (conn', w')"
    "waiting unread closed xs c w'" "writable (view w')" "outgoing (view w') = outgoing (view w) @ out"
    "absorbs Rc viewc I rdr out rdr' [m] []" "paired synced (conn_writer conn') rdr'"
    "sw_config (conn_writer conn') = sw_config (conn_writer conn)" "rs_config rdr' = rs_config rdr"
proof -
  from poll_item [of w "Inr m" xs "read_rx (conn_reader conn)"] assms(7) obtain w1 where
    p: "poll (read_rx (conn_reader conn)) w = (Returns (Some (Inr m)), w1)"
      "waiting unread closed xs c w1" "same_socket (view w) (view w1)" by (auto simp: waiting_def)
  have w1: "writable (view w1)" "outgoing (view w1) = outgoing (view w)"
    using p(3) assms(6) by (simp_all add: same_socket_def)
  from message_step [OF byte_sink_axioms assms(1-5) w1(1)] obtain w2 out sdr' rdr' where
    s: "send_message R C m (conn_writer conn, w1) = (Returns (Inr ()), (sdr', w2))"
      "view w2 = (view w1)\<lparr>outgoing := outgoing (view w1) @ out\<rparr>"
      "absorbs Rc viewc I rdr out rdr' [m] []" "paired synced sdr' rdr'"
      "sw_config sdr' = sw_config (conn_writer conn)" "rs_config rdr' = rs_config rdr" .
  have w2: "waiting unread closed xs c w2"
    using preservesD [OF waiting_send [of xs c C m], of "(conn_writer conn, w1)"] p(2) s(1) by simp
  have n: "connection_poll_next poll (conn, w) = (Returns (Some (Inr m)), (conn, w1))"
    "connection_send_message R C m (conn, w1) = (Returns (Inr ()), (conn\<lparr>conn_writer := sdr'\<rparr>, w2))"
    using p(1) s(1)
    by (simp_all add: connection_poll_next_def reader_poll_next_def connection_send_message_def on_writer_def)
  show ?thesis
  proof (rule that [of "conn\<lparr>conn_writer := sdr'\<rparr>" w2 out rdr'])
    show "echo_loop R C poll (conn, w) = echo_loop R C poll (conn\<lparr>conn_writer := sdr'\<rparr>, w2)"
      "test_loop R C poll (conn, w) = test_loop R C poll (conn\<lparr>conn_writer := sdr'\<rparr>, w2)"
      by (subst echo_loop.simps test_loop.simps; simp add: n)+
  qed (use s(2-6) w1 w2 in simp_all)
qed

lemma echo_turns:
  assumes "connection Rc viewc" "message_codec C I synced" "paired synced (conn_writer conn) rdr"
    and "compression_fits C synced (conn_writer conn) rdr"
    and "\<forall>m\<in>set ms. sendable (sw_config (conn_writer conn)) m"
    and "writable (view w)" "waiting unread closed (map Inr ms @ xs) c w"
  shows "\<exists>conn' w' out rdr'. echo_loop R C poll (conn, w) = echo_loop R C poll (conn', w')
    \<and> test_loop R C poll (conn, w) = test_loop R C poll (conn', w')
    \<and> waiting unread closed xs c w' \<and> outgoing (view w') = outgoing (view w) @ out
    \<and> absorbs Rc viewc I rdr out rdr' ms [] \<and> paired synced (conn_writer conn') rdr'"
  using assms(3-7)
proof (induction ms arbitrary: conn rdr w)
  case Nil
  then show ?case
    by (intro exI [of _ conn] exI [of _ w] exI [of _ "[]"] exI [of _ rdr]) (simp add: absorbs_Nil)
next
  case (Cons m ms)
  from Cons.prems(3) have m: "sendable (sw_config (conn_writer conn)) m" by simp
  from Cons.prems(5) have wt: "waiting unread closed (Inr m # (map Inr ms @ xs)) c w" by simp
  from echo_turn [OF assms(1,2) Cons.prems(1,2) m Cons.prems(4) wt] obtain conn1 w1 out rdr1 where
    1: "echo_loop R C poll (conn, w) = echo_loop R C poll (conn1, w1)"
      "test_loop R C poll (conn, w) = test_loop R C poll (conn1, w1)"
      "waiting unread closed (map Inr ms @ xs) c w1" "writable (view w1)" "outgoing (view w1) = outgoing (view w) @ out"
      "absorbs Rc viewc I rdr out rdr1 [m] []" "paired synced (conn_writer conn1) rdr1"
      "sw_config (conn_writer conn1) = sw_config (conn_writer conn)" "rs_config rdr1 = rs_config rdr" .
  from Cons.IH [OF 1(7) _ _ 1(4,3)] 1(8,9) Cons.prems(2,3) obtain conn2 w2 out2 rdr2 where
    2: "echo_loop R C poll (conn1, w1) = echo_loop R C poll (conn2, w2)"
      "test_loop R C poll (conn1, w1) = test_loop R C poll (conn2, w2)"
      "waiting unread closed xs c w2" "outgoing (view w2) = outgoing (view w1) @ out2"
      "absorbs Rc viewc I rdr1 out2 rdr2 ms []" "paired synced (conn_writer conn2) rdr2"
    by (auto simp: compression_fits_def)
  from absorbs_trans [OF 1(6) 2(5)] 1 2 show ?case
    by (intro exI [of _ conn2] exI [of _ w2] exI [of _ "out @ out2"] exI [of _ rdr2]) simp
qed

lemma echo_ends:
  assumes "waiting unread closed (map Inl errs) c w"
  shows "\<exists>w'. echo_loop R C poll (conn, w) = Some (map_outcome (\<lambda>_. ()) (loop_result errs c), (conn, w'))
    \<and> test_loop R C poll (conn, w) = Some (loop_result errs c, (conn, w')) \<and> outgoing (view w') = outgoing (view w)"
proof (cases errs)
  case Nil
  with poll_none [of w "read_rx (conn_reader conn)"] assms obtain w' where
    "poll (read_rx (conn_reader conn)) w = (if c then Returns None else Hangs, w')" "same_socket (view w) (view w')"
    by (auto simp: waiting_def)
  with Nil show ?thesis
    by (intro exI [of _ w'])
      (simp add: echo_loop.simps test_loop.simps connection_poll_next_def reader_poll_next_def
        loop_result_def same_socket_def)
next
  case (Cons e es)
  with poll_item [of w "Inl e" "map Inl es" "read_rx (conn_reader conn)"] assms obtain w' where
    "poll (read_rx (conn_reader conn)) w = (Returns (Some (Inl e)), w')" "same_socket (view w) (view w')"
    by (auto simp: waiting_def)
  with Cons show ?thesis
    by (intro exI [of _ w'])
      (simp add: echo_loop.simps test_loop.simps connection_poll_next_def reader_poll_next_def
        loop_result_def same_socket_def)
qed

end

section \<open>On the simulated socket\<close>

text \<open>The mailbox of the simulated connection, read until it is empty and then closed.\<close>

definition sim_receive :: "sim receiving" where
  "sim_receive rx w =
     (case mailbox w of [] \<Rightarrow> (Returns None, w) | x # xs \<Rightarrow> (Returns (Some x), w\<lparr>mailbox := xs\<rparr>))"

interpretation sim_inbox: inbox sim_runtime sim_view sim_receive mailbox "\<lambda>w. True"
  by unfold_locales
    (auto simp: sim_receive_def same_socket_def sim_view_def sim_runtime_def sim_write_all_def
      sim_random_u8_def)

section \<open>Property\<close>

text \<open>
  \<^bold>\<open>C9.\<close> An echo server sends back exactly the messages it receives, in order: when the items of
  a connection are some messages and then perhaps an error, the loop of \<open>echo_server.rs\<close> sends the
  messages to a peer whose reading loop delivers just these, and ends with the error or with the
  end of the stream (as long as the stream is open it waits). The loop of \<open>autobahn_client.rs\<close> does
  the same and returns the error.
\<close>

theorem echo_returns_messages:
  assumes "inbox R view poll unread closed" "connection Rc viewc" "message_codec C I synced"
    and "paired synced (conn_writer conn) rdr" "compression_fits C synced (conn_writer conn) rdr"
    and "\<forall>m\<in>set ms. sendable (sw_config (conn_writer conn)) m"
    and "writable (view w)" "unread w = map Inr ms @ map Inl errs"
  shows "\<exists>conn' w' out rdr'.
      echo_loop R C poll (conn, w) = Some (map_outcome (\<lambda>_. ()) (loop_result errs (closed w)), (conn', w'))
    \<and> test_loop R C poll (conn, w) = Some (loop_result errs (closed w), (conn', w'))
    \<and> outgoing (view w') = outgoing (view w) @ out
    \<and> absorbs Rc viewc I rdr out rdr' ms [] \<and> paired synced (conn_writer conn') rdr'"
proof -
  have "waiting unread closed (map Inr ms @ map Inl errs) (closed w) w"
    using assms(8) by (simp add: waiting_def)
  from inbox.echo_turns [OF assms(1-7) this] obtain conn' w1 out rdr' where
    1: "echo_loop R C poll (conn, w) = echo_loop R C poll (conn', w1)"
      "test_loop R C poll (conn, w) = test_loop R C poll (conn', w1)"
      "waiting unread closed (map Inl errs) (closed w) w1" "outgoing (view w1) = outgoing (view w) @ out"
      "absorbs Rc viewc I rdr out rdr' ms []" "paired synced (conn_writer conn') rdr'" by blast
  from inbox.echo_ends [OF assms(1) 1(3), of C conn'] obtain w' where
    "echo_loop R C poll (conn', w1) = Some (map_outcome (\<lambda>_. ()) (loop_result errs (closed w)), (conn', w'))"
    "test_loop R C poll (conn', w1) = Some (loop_result errs (closed w), (conn', w'))"
    "outgoing (view w') = outgoing (view w1)" by blast
  with 1 show ?thesis by (intro exI [of _ conn'] exI [of _ w'] exI [of _ out] exI [of _ rdr']) simp
qed

text \<open>
  A server with the items of the whole session of \<open>Established\<close>, and a client with a larger bound.
\<close>

theorem echo_returns_messages_witness:
  "\<exists>conn' w'. echo_loop sim_runtime stored_deflater sim_receive
       (fst (second_stage_handshake Server (zip_config 200) sim_dec sim_enc),
        (sim_peer [])\<lparr>mailbox := map Inr sim_messages @ [Inl InvalidOpcode]\<rparr>) = Some (Returns (), (conn', w'))
     \<and> (\<exists>rdr'. absorbs sim_runtime sim_view stored_inflater
          (new_read_stream \<lparr>kind = Client\<rparr> (zip_config 2000) sim_dec) (sent w') rdr' sim_messages [])"
proof -
  let ?conn = "fst (second_stage_handshake Server (zip_config 200) sim_dec sim_enc)"
  let ?rdr = "new_read_stream \<lparr>kind = Client\<rparr> (zip_config 2000) sim_dec"
  let ?w = "(sim_peer [])\<lparr>mailbox := map Inr sim_messages @ [Inl InvalidOpcode]\<rparr>"
  have p: "paired stored_synced (conn_writer ?conn) ?rdr"
    "compression_fits stored_deflater stored_synced (conn_writer ?conn) ?rdr"
    using sim_synced by (auto simp: paired_def compression_fits_def zip_defs dest!: stored_compress)
  have m: "\<forall>m\<in>set sim_messages. sendable (sw_config (conn_writer ?conn)) m"
    by (simp add: sim_messages_def sendable_def zip_defs message_ok_def
        valid_string_def is_scalar_def as_binary_def encode_utf8_def encode_char_def)
  have w: "writable (sim_view ?w)" "mailbox ?w = map Inr sim_messages @ map Inl [InvalidOpcode]"
    "outgoing (sim_view ?w) = []" by (simp_all add: sim_view_def sim_peer_def)
  from echo_returns_messages [OF sim_inbox.inbox_axioms sim.connection_axioms stored.message_codec_axioms
      p m w(1,2)] w(3)
  show ?thesis by (auto simp: loop_result_def sim_view_def)
qed

end
