(* ===== verification/Server.thy ===== *)
theory Server
  imports Connection
begin

text \<open>
  \<open>src/server.rs\<close> and \<open>src/event.rs\<close>: the ready-made server. Its accept loop and the task it
  spawns for every client run concurrently and send events into one channel, which the user
  reads as an \<open>EventStream\<close>. They are a step relation: each rule is one await point of the
  code, so that every interleaving of the tasks is a run of the relation.
\<close>

section \<open>Events (event.rs)\<close>

datatype uuid = Uuid bytes

datatype 'c event =
    NewClient uuid "'c ws_writer"
  | NewMessage uuid message
  | Disconnect uuid
  | Error uuid error

text \<open>\<open>Uuid::new_v8\<close> of 16 random bytes.\<close>

definition generate_new_uuid :: "'w runtime \<Rightarrow> (bytes \<Rightarrow> uuid) \<Rightarrow> ('w, error, uuid) async" where
  "generate_new_uuid R new_v8 = await (random_bytes R 16) (\<lambda>buf. ok (new_v8 buf))"

fun about :: "uuid \<Rightarrow> 'c event \<Rightarrow> bool" where
  "about u (NewClient v wtr) = (v = u)"
| "about u (NewMessage v m) = (v = u)"
| "about u (Disconnect v) = (v = u)"
| "about u (Error v e) = (v = u)"

section \<open>Parameters\<close>

text \<open>
  A bounded channel as tokio documents it: \<open>send\<close> waits (\<open>None\<close>) while it is full, the
  receiver takes the items in the order they were sent.
\<close>

record ('a, 'q) mpsc =
  new_channel :: "nat \<Rightarrow> 'q"
  enqueue :: "'a \<Rightarrow> 'q \<Rightarrow> 'q option"
  dequeue :: "'q \<Rightarrow> ('a \<times> 'q) option"

locale fifo =
  fixes E :: "('a, 'q) mpsc" and contents :: "'q \<Rightarrow> 'a list"
  assumes contents_new: "contents (new_channel E n) = []"
    and contents_enqueue: "enqueue E x q = Some q' \<Longrightarrow> contents q' = contents q @ [x]"
    and contents_dequeue: "dequeue E q = Some (x, q') \<Longrightarrow> contents q = x # contents q'"

definition bounded_channel :: "('a, nat \<times> 'a list) mpsc" where
  "bounded_channel =
     \<lparr>new_channel = (\<lambda>n. (n, [])),
      enqueue = (\<lambda>x (n, xs). if length xs < n then Some (n, xs @ [x]) else None),
      dequeue = (\<lambda>(n, xs). case xs of [] \<Rightarrow> None | x # xs' \<Rightarrow> Some (x, (n, xs')))\<rparr>"

interpretation bounded: fifo bounded_channel snd
  by unfold_locales (auto simp: bounded_channel_def split: if_splits list.splits)

text \<open>
  What the server is started with: the parameters of the handshake, the configuration, and how
  to read off a connection's world the items its reader task has sent to the user's channel.
\<close>

record ('w, 'c, 'd, 'q, 'tls) server_env =
  env_runtime :: "'w runtime"
  env_lines :: "'w line_io"
  env_library :: library
  env_inflater :: "'d inflater"
  env_deflater :: "'c deflater"
  env_received :: "'w \<Rightarrow> (error + message) list"
  env_new_v8 :: "bytes \<Rightarrow> uuid"
  env_channel :: "('c event, 'q) mpsc"
  env_config :: "'tls server_config option"

definition listener_config :: "('w, 'c, 'd, 'q, 'tls) server_env \<Rightarrow> web_socket_config option" where
  "listener_config V = server_web_socket_config (unwrap_or default_server_config (env_config V))"

definition uses_tls :: "('w, 'c, 'd, 'q, 'tls) server_env \<Rightarrow> bool" where
  "uses_tls V \<longleftrightarrow> tls_config (unwrap_or default_server_config (env_config V)) \<noteq> None"

section \<open>The state of the server (server.rs)\<close>

text \<open>
  Where the accept loop is: drawing an id, in \<open>listener.accept()\<close>, in the TLS or the WebSocket
  handshake of an accepted stream, in one of its \<open>tx.send(...)\<close>, or ended by a panic.
\<close>

datatype ('w, 'c) acceptor =
    Drawing
  | Listening uuid
  | TlsAccepting uuid 'w
  | Handshaking uuid 'w
  | Announcing uuid "'c ws_writer" "(error + message) list" bool
  | Reporting uuid error
  | Crashed

text \<open>Where the task of one client is: in \<open>ws_reader.next()\<close>, in one of its sends, or ended.\<close>

datatype task = Waiting | Forwarding message | Failing error | Leaving | Done | Aborted

text \<open>
  A client: the items its reader task sends (all of them, and those not taken yet), and whether
  the stream ends after them (otherwise \<open>next()\<close> waits for ever).
\<close>

record client =
  cl_id :: uuid
  cl_task :: task
  cl_all :: "(error + message) list"
  cl_items :: "(error + message) list"
  cl_ends :: bool

text \<open>
  \<open>sv_drawn\<close>, \<open>sv_sent\<close> and \<open>sv_taken\<close> record the ids drawn, the events sent and the events the
  user has taken so far.
\<close>

record ('w, 'c, 'q) server =
  sv_acceptor :: "('w, 'c) acceptor"
  sv_clients :: "client list"
  sv_events :: 'q
  sv_receiving :: bool
  sv_drawn :: "uuid list"
  sv_sent :: "'c event list"
  sv_taken :: "'c event list"

text \<open>
  A started server: the environment in which the spawned accept loop runs, and its first state.
\<close>

definition start_server_with_config ::
  "(rstring \<Rightarrow> io_error + unit) \<Rightarrow> ('w, 'c, 'd, 'q, 'tls) server_env \<Rightarrow> nat \<Rightarrow> 'tls server_config option
     \<Rightarrow> io_error + ('w, 'c, 'd, 'q, 'tls) server_env \<times> ('w, 'c, 'q) server" where
  "start_server_with_config bind V port config =
     (case bind (lit ''0.0.0.0:'' @ show_nat port) of
        Inl e \<Rightarrow> Inl e
      | Inr _ \<Rightarrow> Inr (V\<lparr>env_config := config\<rparr>,
          \<lparr>sv_acceptor = Drawing, sv_clients = [], sv_events = new_channel (env_channel V) 1000,
           sv_receiving = True, sv_drawn = [], sv_sent = [], sv_taken = []\<rparr>))"

definition start_server ::
  "(rstring \<Rightarrow> io_error + unit) \<Rightarrow> ('w, 'c, 'd, 'q, 'tls) server_env \<Rightarrow> nat
     \<Rightarrow> io_error + ('w, 'c, 'd, 'q, 'tls) server_env \<times> ('w, 'c, 'q) server" where
  "start_server bind V port = start_server_with_config bind V port None"

text \<open>\<open>tx.send(ev).await\<close>: \<open>Some\<close> when it completes with \<open>Ok\<close>.\<close>

definition send_event ::
  "('w, 'c, 'd, 'q, 'tls) server_env \<Rightarrow> 'c event \<Rightarrow> ('w, 'c, 'q) server \<Rightarrow> ('w, 'c, 'q) server option" where
  "send_event V ev s =
     (if sv_receiving s then
        map_option (\<lambda>q. s\<lparr>sv_events := q, sv_sent := sv_sent s @ [ev]\<rparr>)
          (enqueue (env_channel V) ev (sv_events s))
      else None)"

definition set_task :: "nat \<Rightarrow> task \<Rightarrow> ('w, 'c, 'q) server \<Rightarrow> ('w, 'c, 'q) server" where
  "set_task i t s = s\<lparr>sv_clients := (sv_clients s)[i := (sv_clients s ! i)\<lparr>cl_task := t\<rparr>]\<rparr>"

text \<open>\<open>ws_reader.next()\<close> has returned: the item is gone from the client's stream.\<close>

definition take_item :: "nat \<Rightarrow> task \<Rightarrow> ('w, 'c, 'q) server \<Rightarrow> ('w, 'c, 'q) server" where
  "take_item i t s = s\<lparr>sv_clients := (sv_clients s)[i := (sv_clients s ! i)
     \<lparr>cl_task := t, cl_items := tl (cl_items (sv_clients s ! i))\<rparr>]\<rparr>"

definition in_task :: "('w, 'c, 'q) server \<Rightarrow> nat \<Rightarrow> task \<Rightarrow> bool" where
  "in_task s i t \<longleftrightarrow> i < length (sv_clients s) \<and> cl_task (sv_clients s ! i) = t"

section \<open>One iteration of the accept loop\<close>

text \<open>
  The world \<open>w\<close> of an accepted stream is any in which nothing has been sent to the channel of
  the connection yet, which does not exist before the handshake.
\<close>

inductive accept_step ::
  "('w, 'c, 'd, 'q, 'tls) server_env \<Rightarrow> ('w, 'c, 'q) server \<Rightarrow> ('w, 'c, 'q) server \<Rightarrow> bool"
  for V :: "('w, 'c, 'd, 'q, 'tls) server_env" where
  draw: "sv_acceptor s = Drawing \<Longrightarrow> length buf = 16 \<Longrightarrow> u = env_new_v8 V buf \<Longrightarrow>
     accept_step V s (s\<lparr>sv_acceptor := Listening u, sv_drawn := sv_drawn s @ [u]\<rparr>)"
| accepted: "sv_acceptor s = Listening u \<Longrightarrow> env_received V w = [] \<Longrightarrow>
     accept_step V s (s\<lparr>sv_acceptor := (if uses_tls V then TlsAccepting u w else Handshaking u w)\<rparr>)"
| not_accepted: "sv_acceptor s = Listening u \<Longrightarrow>
     accept_step V s (s\<lparr>sv_acceptor := Reporting u (IOError e)\<rparr>)"
| tls_accepted: "sv_acceptor s = TlsAccepting u w \<Longrightarrow> env_received V w' = [] \<Longrightarrow>
     accept_step V s (s\<lparr>sv_acceptor := Handshaking u w'\<rparr>)"
| tls_failed: "sv_acceptor s = TlsAccepting u w \<Longrightarrow>
     accept_step V s (s\<lparr>sv_acceptor := Reporting u (IOError e)\<rparr>)"
| shaken: "sv_acceptor s = Handshaking u w \<Longrightarrow>
     accept_async_with_config (env_runtime V) (env_lines V) (env_library V) (env_inflater V)
       (env_deflater V) (listener_config V) w = (Returns (Inr (conn, rdr)), w1) \<Longrightarrow>
     reader_task (env_runtime V) (env_inflater V) (rdr, w1) = (r, (rdr', w2)) \<Longrightarrow>
     accept_step V s (s\<lparr>sv_acceptor :=
       Announcing u (snd (split_connection conn)) (env_received V w2) (r \<noteq> Hangs)\<rparr>)"
| not_shaken: "sv_acceptor s = Handshaking u w \<Longrightarrow>
     accept_async_with_config (env_runtime V) (env_lines V) (env_library V) (env_inflater V)
       (env_deflater V) (listener_config V) w = (Returns (Inl e), w1) \<Longrightarrow>
     accept_step V s (s\<lparr>sv_acceptor := Reporting u e\<rparr>)"
| shaking_panics: "sv_acceptor s = Handshaking u w \<Longrightarrow>
     accept_async_with_config (env_runtime V) (env_lines V) (env_library V) (env_inflater V)
       (env_deflater V) (listener_config V) w = (Panics, w1) \<Longrightarrow>
     accept_step V s (s\<lparr>sv_acceptor := Crashed\<rparr>)"
| report: "sv_acceptor s = Reporting u e \<Longrightarrow> send_event V (Error u e) s = Some s' \<Longrightarrow>
     accept_step V s (s'\<lparr>sv_acceptor := Drawing\<rparr>)"
| report_closed: "sv_acceptor s = Reporting u e \<Longrightarrow> \<not> sv_receiving s \<Longrightarrow>
     accept_step V s (s\<lparr>sv_acceptor := Crashed\<rparr>)"
| announce: "sv_acceptor s = Announcing u wtr items ends \<Longrightarrow>
     send_event V (NewClient u wtr) s = Some s' \<Longrightarrow>
     accept_step V s (s'\<lparr>sv_acceptor := Drawing, sv_clients := sv_clients s @
       [\<lparr>cl_id = u, cl_task = Waiting, cl_all = items, cl_items = items, cl_ends = ends\<rparr>]\<rparr>)"
| announce_closed: "sv_acceptor s = Announcing u wtr items ends \<Longrightarrow> \<not> sv_receiving s \<Longrightarrow>
     accept_step V s (s\<lparr>sv_acceptor := Crashed\<rparr>)"

section \<open>The task of a client\<close>

inductive client_step ::
  "('w, 'c, 'd, 'q, 'tls) server_env \<Rightarrow> nat \<Rightarrow> ('w, 'c, 'q) server \<Rightarrow> ('w, 'c, 'q) server \<Rightarrow> bool"
  for V :: "('w, 'c, 'd, 'q, 'tls) server_env" and i :: nat where
  next_message: "in_task s i Waiting \<Longrightarrow> cl_items (sv_clients s ! i) = Inr m # items \<Longrightarrow>
     client_step V i s (take_item i (Forwarding m) s)"
| next_error: "in_task s i Waiting \<Longrightarrow> cl_items (sv_clients s ! i) = Inl e # items \<Longrightarrow>
     client_step V i s (take_item i (Failing e) s)"
| next_none: "in_task s i Waiting \<Longrightarrow> cl_items (sv_clients s ! i) = [] \<Longrightarrow> cl_ends (sv_clients s ! i) \<Longrightarrow>
     client_step V i s (set_task i Leaving s)"
| forward: "in_task s i (Forwarding m) \<Longrightarrow>
     send_event V (NewMessage (cl_id (sv_clients s ! i)) m) s = Some s' \<Longrightarrow>
     client_step V i s (set_task i Waiting s')"
| fail: "in_task s i (Failing e) \<Longrightarrow>
     send_event V (Error (cl_id (sv_clients s ! i)) e) s = Some s' \<Longrightarrow>
     client_step V i s (set_task i Leaving s')"
| leave: "in_task s i Leaving \<Longrightarrow>
     send_event V (Disconnect (cl_id (sv_clients s ! i))) s = Some s' \<Longrightarrow>
     client_step V i s (set_task i Done s')"
| forward_closed: "in_task s i (Forwarding m) \<Longrightarrow> \<not> sv_receiving s \<Longrightarrow>
     client_step V i s (set_task i Aborted s)"
| fail_closed: "in_task s i (Failing e) \<Longrightarrow> \<not> sv_receiving s \<Longrightarrow>
     client_step V i s (set_task i Aborted s)"
| leave_closed: "in_task s i Leaving \<Longrightarrow> \<not> sv_receiving s \<Longrightarrow>
     client_step V i s (set_task i Done s)"

section \<open>Runs\<close>

text \<open>The user takes the next event off the stream, or drops it.\<close>

inductive server_step ::
  "('w, 'c, 'd, 'q, 'tls) server_env \<Rightarrow> ('w, 'c, 'q) server \<Rightarrow> ('w, 'c, 'q) server \<Rightarrow> bool"
  for V :: "('w, 'c, 'd, 'q, 'tls) server_env" where
  by_acceptor: "accept_step V s s' \<Longrightarrow> server_step V s s'"
| by_client: "client_step V i s s' \<Longrightarrow> server_step V s s'"
| poll_next: "sv_receiving s \<Longrightarrow> dequeue (env_channel V) (sv_events s) = Some (ev, q) \<Longrightarrow>
     server_step V s (s\<lparr>sv_events := q, sv_taken := sv_taken s @ [ev]\<rparr>)"
| drop_stream: "sv_receiving s \<Longrightarrow> server_step V s (s\<lparr>sv_receiving := False\<rparr>)"

inductive runs ::
  "('w, 'c, 'd, 'q, 'tls) server_env \<Rightarrow> ('w, 'c, 'q) server \<Rightarrow> ('w, 'c, 'q) server \<Rightarrow> bool"
  for V :: "('w, 'c, 'd, 'q, 'tls) server_env" where
  runs_refl: "runs V s s"
| runs_step: "runs V s s1 \<Longrightarrow> server_step V s1 s2 \<Longrightarrow> runs V s s2"

inductive_simps accept_step_crashed: "accept_step V (s\<lparr>sv_acceptor := Crashed\<rparr>) s'"

section \<open>What is told about one connection\<close>

text \<open>
  The events of a client in the order the server sends them: its arrival, its messages, at most
  one error, its departure.
\<close>

definition told :: "uuid \<Rightarrow> 'c ws_writer \<Rightarrow> message list \<Rightarrow> error list \<Rightarrow> bool \<Rightarrow> 'c event list" where
  "told u wtr ms errs gone =
     NewClient u wtr # map (NewMessage u) ms @ map (Error u) errs @ (if gone then [Disconnect u] else [])"

text \<open>
  What has been told about a client, its unread items and the state of its task fit together;
  \<open>live\<close> says whether the user still listens.
\<close>

definition client_inv :: "'c event list \<Rightarrow> bool \<Rightarrow> client \<Rightarrow> bool" where
  "client_inv evs live c \<longleftrightarrow>
     (\<exists>wtr ms errs gone. filter (about (cl_id c)) evs = told (cl_id c) wtr ms errs gone
       \<and> (case cl_task c of
            Waiting \<Rightarrow> errs = [] \<and> \<not> gone \<and> cl_all c = map Inr ms @ cl_items c
          | Forwarding m \<Rightarrow> errs = [] \<and> \<not> gone \<and> cl_all c = map Inr ms @ Inr m # cl_items c
          | Failing e \<Rightarrow> errs = [] \<and> \<not> gone \<and> cl_all c = map Inr ms @ Inl e # cl_items c
          | Leaving \<Rightarrow> \<not> gone \<and> length errs \<le> 1 \<and> cl_all c = map Inr ms @ map Inl errs @ cl_items c
              \<and> (errs = [] \<longrightarrow> cl_items c = [] \<and> cl_ends c)
          | Done \<Rightarrow> (gone \<or> \<not> live) \<and> length errs \<le> 1 \<and> cl_all c = map Inr ms @ map Inl errs @ cl_items c
              \<and> (errs = [] \<longrightarrow> cl_items c = [] \<and> cl_ends c)
          | Aborted \<Rightarrow> \<not> live \<and> errs = [] \<and> \<not> gone \<and> (\<exists>x. cl_all c = map Inr ms @ x # cl_items c)))"

named_theorems client_invs "what a step of the task does to the invariant of its client"

lemma client_inv_message [client_invs]:
  "client_inv evs live c \<Longrightarrow> cl_task c = Waiting \<Longrightarrow> cl_items c = Inr m # items \<Longrightarrow>
     client_inv evs live (c\<lparr>cl_task := Forwarding m, cl_items := items\<rparr>)"
  by (auto simp: client_inv_def)

lemma client_inv_error [client_invs]:
  "client_inv evs live c \<Longrightarrow> cl_task c = Waiting \<Longrightarrow> cl_items c = Inl e # items \<Longrightarrow>
     client_inv evs live (c\<lparr>cl_task := Failing e, cl_items := items\<rparr>)"
  by (auto simp: client_inv_def)

lemma client_inv_none [client_invs]:
  "client_inv evs live c \<Longrightarrow> cl_task c = Waiting \<Longrightarrow> cl_items c = [] \<Longrightarrow> cl_ends c \<Longrightarrow>
     client_inv evs live (c\<lparr>cl_task := Leaving\<rparr>)"
proof -
  assume c: "client_inv evs live c" "cl_task c = Waiting" "cl_items c = []" "cl_ends c"
  then obtain wtr ms where "filter (about (cl_id c)) evs = told (cl_id c) wtr ms [] False"
    "cl_all c = map Inr ms" by (auto simp: client_inv_def)
  with c(3,4) show ?thesis
    unfolding client_inv_def
    by (intro exI [of _ wtr] exI [of _ ms] exI [of _ "[]"] exI [of _ False]) simp
qed

lemma client_inv_forward [client_invs]:
  assumes "client_inv evs live c" "cl_task c = Forwarding m" "u = cl_id c"
  shows "client_inv (evs @ [NewMessage u m]) live (c\<lparr>cl_task := Waiting\<rparr>)"
proof -
  from assms obtain wtr ms where "filter (about (cl_id c)) evs = told (cl_id c) wtr ms [] False"
    "cl_all c = map Inr ms @ Inr m # cl_items c" by (auto simp: client_inv_def)
  with assms(3) show ?thesis
    unfolding client_inv_def
    by (intro exI [of _ wtr] exI [of _ "ms @ [m]"] exI [of _ "[]"] exI [of _ False]) (simp add: told_def)
qed

lemma client_inv_fail [client_invs]:
  assumes "client_inv evs live c" "cl_task c = Failing e" "u = cl_id c"
  shows "client_inv (evs @ [Error u e]) live (c\<lparr>cl_task := Leaving\<rparr>)"
proof -
  from assms obtain wtr ms where "filter (about (cl_id c)) evs = told (cl_id c) wtr ms [] False"
    "cl_all c = map Inr ms @ Inl e # cl_items c" by (auto simp: client_inv_def)
  with assms(3) show ?thesis
    unfolding client_inv_def
    by (intro exI [of _ wtr] exI [of _ ms] exI [of _ "[e]"] exI [of _ False]) (simp add: told_def)
qed

lemma client_inv_leave [client_invs]:
  assumes "client_inv evs live c" "cl_task c = Leaving" "u = cl_id c"
  shows "client_inv (evs @ [Disconnect u]) live (c\<lparr>cl_task := Done\<rparr>)"
proof -
  from assms obtain wtr ms errs where "filter (about (cl_id c)) evs = told (cl_id c) wtr ms errs False"
    "length errs \<le> 1" "cl_all c = map Inr ms @ map Inl errs @ cl_items c"
    "errs = [] \<longrightarrow> cl_items c = [] \<and> cl_ends c" by (auto simp: client_inv_def)
  with assms(3) show ?thesis
    unfolding client_inv_def
    by (intro exI [of _ wtr] exI [of _ ms] exI [of _ errs] exI [of _ True]) (simp add: told_def)
qed

lemma client_inv_closed [client_invs]:
  "client_inv evs False c \<Longrightarrow> cl_task c = Forwarding m \<Longrightarrow> client_inv evs False (c\<lparr>cl_task := Aborted\<rparr>)"
  "client_inv evs False c \<Longrightarrow> cl_task c = Failing e \<Longrightarrow> client_inv evs False (c\<lparr>cl_task := Aborted\<rparr>)"
  "client_inv evs False c \<Longrightarrow> cl_task c = Leaving \<Longrightarrow> client_inv evs False (c\<lparr>cl_task := Done\<rparr>)"
  by (auto simp: client_inv_def)

lemma client_inv_other:
  "\<not> about (cl_id c) ev \<Longrightarrow> client_inv (evs @ [ev]) live c \<longleftrightarrow> client_inv evs live c"
  by (simp add: client_inv_def)

lemma client_inv_dropped: "client_inv evs live c \<Longrightarrow> client_inv evs False c"
  unfolding client_inv_def by (cases "cl_task c") auto

lemma client_inv_new:
  "filter (about u) evs = [] \<Longrightarrow> client_inv (evs @ [NewClient u wtr]) live
     \<lparr>cl_id = u, cl_task = Waiting, cl_all = items, cl_items = items, cl_ends = ends\<rparr>"
  unfolding client_inv_def
  by (intro exI [of _ wtr] exI [of _ "[]"] exI [of _ "[]"] exI [of _ False]) (simp add: told_def)

section \<open>The invariant of the server\<close>

fun pending :: "('w, 'c) acceptor \<Rightarrow> uuid list" where
  "pending Drawing = []"
| "pending (Listening u) = [u]"
| "pending (TlsAccepting u w) = [u]"
| "pending (Handshaking u w) = [u]"
| "pending (Announcing u wtr items ends) = [u]"
| "pending (Reporting u e) = [u]"
| "pending Crashed = []"

text \<open>
  With distinct ids: the ids of the clients and of the connection in the accept loop are
  different, and of an id without a client nothing or one error has been told.
\<close>

definition server_inv :: "('w, 'c, 'q) server \<Rightarrow> bool" where
  "server_inv s \<longleftrightarrow>
     (\<forall>c\<in>set (sv_clients s). client_inv (sv_sent s) (sv_receiving s) c)
     \<and> distinct (map cl_id (sv_clients s) @ pending (sv_acceptor s))
     \<and> set (map cl_id (sv_clients s) @ pending (sv_acceptor s)) \<subseteq> set (sv_drawn s)
     \<and> (\<forall>u. u \<notin> cl_id ` set (sv_clients s) \<longrightarrow>
          filter (about u) (sv_sent s) = []
          \<or> (u \<in> set (sv_drawn s) \<and> u \<notin> set (pending (sv_acceptor s))
              \<and> (\<exists>e. filter (about u) (sv_sent s) = [Error u e])))"

lemma send_event_SomeD:
  assumes "send_event V ev s = Some s'"
  shows "sv_receiving s" "sv_sent s' = sv_sent s @ [ev]" "sv_clients s' = sv_clients s"
    "sv_acceptor s' = sv_acceptor s" "sv_drawn s' = sv_drawn s" "sv_taken s' = sv_taken s"
    "sv_receiving s'" "enqueue (env_channel V) ev (sv_events s) = Some (sv_events s')"
  using assms by (auto simp: send_event_def split: if_splits)

lemma send_event_frame:
  "send_event V ev s = Some s' \<Longrightarrow> sv_clients s' = sv_clients s \<and> sv_acceptor s' = sv_acceptor s
     \<and> sv_drawn s' = sv_drawn s \<and> sv_taken s' = sv_taken s"
  by (simp add: send_event_SomeD)

lemma about_unique: "about u ev \<Longrightarrow> about v ev \<longleftrightarrow> v = u"
  by (cases ev) auto

lemma filter_about_other: "\<forall>ev\<in>set new. about u ev \<Longrightarrow> v \<noteq> u \<Longrightarrow> filter (about v) new = []"
  by (auto simp: filter_empty_conv dest: about_unique)

text \<open>A step of one client's task that sends only events about this client.\<close>

lemma client_update_inv:
  assumes "server_inv s" "i < length (sv_clients s)" "cl_id c = cl_id (sv_clients s ! i)"
    and "client_inv (sv_sent s @ new) (sv_receiving s) c" "\<forall>ev\<in>set new. about (cl_id c) ev"
    and "sv_clients s' = (sv_clients s)[i := c]" "sv_sent s' = sv_sent s @ new"
    and "sv_receiving s' = sv_receiving s" "sv_acceptor s' = sv_acceptor s" "sv_drawn s' = sv_drawn s"
  shows "server_inv s'"
proof -
  let ?u = "cl_id c"
  have ids: "map cl_id (sv_clients s') = map cl_id (sv_clients s)"
    using assms(3,6) by (simp add: map_update) (metis list_update_id nth_map assms(2))
  then have ids': "cl_id ` set (sv_clients s') = cl_id ` set (sv_clients s)"
    by (metis set_map)
  have u: "?u \<in> cl_id ` set (sv_clients s)" using assms(2,3) by simp
  have other: "filter (about v) (sv_sent s') = filter (about v) (sv_sent s)" if "v \<noteq> ?u" for v
    using filter_about_other [OF assms(5) that] assms(7) by simp
  have "client_inv (sv_sent s') (sv_receiving s') d" if d: "d \<in> set (sv_clients s')" for d
  proof (cases "d = c")
    case True
    with assms(4,7,8) show ?thesis by simp
  next
    case False
    with d assms(2,6) obtain j where j: "j < length (sv_clients s)" "j \<noteq> i" "d = sv_clients s ! j"
      by (metis in_set_conv_nth length_list_update nth_list_update_eq nth_list_update_neq)
    have "distinct (map cl_id (sv_clients s))" using assms(1) by (simp add: server_inv_def)
    with j assms(2,3) have "cl_id d \<noteq> ?u"
      by (simp add: distinct_conv_nth)
    with other assms(1,8) j show ?thesis by (simp add: server_inv_def client_inv_def)
  qed
  moreover have "filter (about v) (sv_sent s') = filter (about v) (sv_sent s)"
    if "v \<notin> cl_id ` set (sv_clients s)" for v
    using other u that by metis
  ultimately show ?thesis
    using assms(1) by (simp add: server_inv_def ids ids' assms(9,10))
qed

lemma in_taskD: "in_task s i t \<Longrightarrow> i < length (sv_clients s)" "in_task s i t \<Longrightarrow> cl_task (sv_clients s ! i) = t"
  by (simp_all add: in_task_def)

lemma server_inv_client: "server_inv s \<Longrightarrow> i < length (sv_clients s) \<Longrightarrow>
    client_inv (sv_sent s) (sv_receiving s) (sv_clients s ! i)"
  by (simp add: server_inv_def)

lemma client_step_inv:
  assumes "client_step V i s s'" "server_inv s"
  shows "server_inv s'"
  using assms(1)
proof cases
  case (next_message m items)
  note t = in_taskD [OF next_message(2)]
  show ?thesis
    by (rule client_update_inv [OF assms(2) t(1), where new = "[]"])
       (use next_message t server_inv_client [OF assms(2) t(1)] in \<open>simp_all add: take_item_def client_invs\<close>)
next
  case (next_error e items)
  note t = in_taskD [OF next_error(2)]
  show ?thesis
    by (rule client_update_inv [OF assms(2) t(1), where new = "[]"])
       (use next_error t server_inv_client [OF assms(2) t(1)] in \<open>simp_all add: take_item_def client_invs\<close>)
next
  case next_none
  note t = in_taskD [OF next_none(2)]
  show ?thesis
    by (rule client_update_inv [OF assms(2) t(1), where new = "[]"])
       (use next_none t server_inv_client [OF assms(2) t(1)] in \<open>simp_all add: set_task_def client_invs\<close>)
next
  case (forward m s1)
  note t = in_taskD [OF forward(2)] and e = send_event_SomeD [OF forward(3)]
  show ?thesis
    by (rule client_update_inv [OF assms(2) t(1), where new = "[NewMessage (cl_id (sv_clients s ! i)) m]"])
       (use forward t e server_inv_client [OF assms(2) t(1)] in \<open>simp_all add: set_task_def client_invs\<close>)
next
  case (fail er s1)
  note t = in_taskD [OF fail(2)] and e = send_event_SomeD [OF fail(3)]
  show ?thesis
    by (rule client_update_inv [OF assms(2) t(1), where new = "[Error (cl_id (sv_clients s ! i)) er]"])
       (use fail t e server_inv_client [OF assms(2) t(1)] in \<open>simp_all add: set_task_def client_invs\<close>)
next
  case (leave s1)
  note t = in_taskD [OF leave(2)] and e = send_event_SomeD [OF leave(3)]
  show ?thesis
    by (rule client_update_inv [OF assms(2) t(1), where new = "[Disconnect (cl_id (sv_clients s ! i))]"])
       (use leave t e server_inv_client [OF assms(2) t(1)] in \<open>simp_all add: set_task_def client_invs\<close>)
next
  case (forward_closed m)
  note t = in_taskD [OF forward_closed(2)]
  show ?thesis
    by (rule client_update_inv [OF assms(2) t(1), where new = "[]"])
       (use forward_closed t server_inv_client [OF assms(2) t(1)] in \<open>simp_all add: set_task_def client_invs\<close>)
next
  case (fail_closed e)
  note t = in_taskD [OF fail_closed(2)]
  show ?thesis
    by (rule client_update_inv [OF assms(2) t(1), where new = "[]"])
       (use fail_closed t server_inv_client [OF assms(2) t(1)] in \<open>simp_all add: set_task_def client_invs\<close>)
next
  case leave_closed
  note t = in_taskD [OF leave_closed(2)]
  show ?thesis
    by (rule client_update_inv [OF assms(2) t(1), where new = "[]"])
       (use leave_closed t server_inv_client [OF assms(2) t(1)] in \<open>simp_all add: set_task_def client_invs\<close>)
qed

text \<open>A step of the accept loop that sends nothing.\<close>

lemma acceptor_update_inv:
  assumes "server_inv s" "sv_clients s' = sv_clients s" "sv_sent s' = sv_sent s"
    and "sv_receiving s' = sv_receiving s" "sv_drawn s' = sv_drawn s"
    and "pending (sv_acceptor s') = [] \<or> pending (sv_acceptor s') = pending (sv_acceptor s)"
  shows "server_inv s'"
  using assms by (auto simp: server_inv_def)

lemma filter_about_snoc:
  "filter (about u) (evs @ [ev]) = filter (about u) evs @ (if about u ev then [ev] else [])"
  by simp

lemma accept_step_inv:
  assumes "accept_step V s s'" "server_inv s" "distinct (sv_drawn s')"
  shows "server_inv s'"
  using assms(1)
proof cases
  case (draw buf u)
  then have u: "u \<notin> set (sv_drawn s)" using assms(3) by simp
  then have "u \<notin> cl_id ` set (sv_clients s)"
    using assms(2) by (auto simp: server_inv_def)
  with u have "filter (about u) (sv_sent s) = []"
    using assms(2) unfolding server_inv_def by blast
  with draw u assms(2) show ?thesis by (auto simp: server_inv_def)
next
  case (report u e s1)
  note ev = send_event_SomeD [OF report(3)]
  have u: "u \<notin> cl_id ` set (sv_clients s)" "u \<in> set (sv_drawn s)" "filter (about u) (sv_sent s) = []"
    using assms(2) report(2) by (auto simp: server_inv_def)
  have "client_inv (sv_sent s @ [Error u e]) (sv_receiving s) c" if "c \<in> set (sv_clients s)" for c
    using that u(1) assms(2) by (subst client_inv_other) (auto simp: server_inv_def)
  with report(1,2) u ev assms(2) show ?thesis
    by (auto simp: server_inv_def filter_about_snoc split: if_splits)
next
  case (announce u wtr items ends s1)
  note ev = send_event_SomeD [OF announce(3)]
  have u: "u \<notin> cl_id ` set (sv_clients s)" "u \<in> set (sv_drawn s)" "filter (about u) (sv_sent s) = []"
    using assms(2) announce(2) by (auto simp: server_inv_def)
  have "client_inv (sv_sent s @ [NewClient u wtr]) (sv_receiving s) c" if "c \<in> set (sv_clients s)" for c
    using that u(1) assms(2) by (subst client_inv_other) (auto simp: server_inv_def)
  moreover note client_inv_new [OF u(3), of wtr "sv_receiving s" items ends]
  ultimately show ?thesis
    using announce(1,2) u ev assms(2)
    by (auto simp: server_inv_def filter_about_snoc split: if_splits)
qed (use assms(2) in \<open>auto intro: acceptor_update_inv\<close>)

lemma server_step_drawn: "server_step V s s' \<Longrightarrow> prefix (sv_drawn s) (sv_drawn s')"
  by (auto elim!: server_step.cases accept_step.cases client_step.cases
      simp: take_item_def set_task_def dest: send_event_SomeD)

lemma client_step_frame:
  assumes "client_step V i s s'"
  shows "map cl_id (sv_clients s') = map cl_id (sv_clients s) \<and> sv_acceptor s' = sv_acceptor s
    \<and> sv_drawn s' = sv_drawn s"
  using assms
  by cases (auto simp: take_item_def set_task_def in_task_def map_update dest!: send_event_frame
      intro!: nth_equalityI, (simp add: nth_list_update)+)

lemma server_step_inv:
  assumes "server_step V s s'" "server_inv s" "distinct (sv_drawn s')"
  shows "server_inv s'"
  using assms(1)
proof cases
  case by_acceptor
  then show ?thesis using accept_step_inv assms(2,3) by blast
next
  case (by_client i)
  then show ?thesis using client_step_inv assms(2) by blast
next
  case (poll_next ev q)
  with assms(2) show ?thesis by (simp add: server_inv_def)
next
  case drop_stream
  with assms(2) show ?thesis by (auto simp: server_inv_def intro: client_inv_dropped)
qed

lemma start_inv: "start_server_with_config bind V0 port config = Inr (V, s) \<Longrightarrow> server_inv s"
  by (auto simp: start_server_with_config_def server_inv_def split: sum.splits)

lemma runs_inv:
  assumes "runs V s0 s" "server_inv s0" "distinct (sv_drawn s)"
  shows "server_inv s"
  using assms
proof (induction rule: runs.induct)
  case (runs_step s s1 s2)
  from server_step_drawn [OF runs_step.hyps(2)] runs_step.prems(2) have "distinct (sv_drawn s1)"
    by (auto elim!: prefixE)
  with runs_step server_step_inv show ?case by blast
qed

text \<open>The events sent are those the user has taken and those still in the channel, in order.\<close>

lemma send_event_contents:
  assumes "send_event V ev s = Some s'" "fifo (env_channel V) contents"
    and "sv_sent s = sv_taken s @ contents (sv_events s)"
  shows "sv_sent s' = sv_taken s' @ contents (sv_events s')"
  using send_event_SomeD [OF assms(1)] fifo.contents_enqueue [OF assms(2)] assms(3) by simp

lemma runs_sent:
  assumes "runs V s0 s" "fifo (env_channel V) contents" "sv_sent s0 = sv_taken s0 @ contents (sv_events s0)"
  shows "sv_sent s = sv_taken s @ contents (sv_events s)"
  using assms
proof (induction rule: runs.induct)
  case (runs_step s s1 s2)
  then have i: "sv_sent s1 = sv_taken s1 @ contents (sv_events s1)" by blast
  from runs_step.hyps(2) show ?case
  proof cases
    case by_acceptor
    then show ?thesis using i runs_step.prems(1)
      by cases (auto dest: send_event_contents)
  next
    case (by_client j)
    then show ?thesis using i runs_step.prems(1)
      by cases (auto simp: take_item_def set_task_def dest: send_event_contents)
  next
    case (poll_next ev q)
    then show ?thesis using i runs_step.prems(1) fifo.contents_dequeue [of "env_channel V" contents "sv_events s1" ev q] by simp
  qed (use i in simp)
qed

section \<open>What the reader tasks hand to the server\<close>

lemma preserves_or_panic [preserved]: "preserves P (or_panic x)"
  by (simp add: preserves_def)

lemma preserves_option [preserved]: "preserves P (case x of Some v \<Rightarrow> ok v | None \<Rightarrow> err e)"
  by (cases x) (simp_all add: preserved)

lemma accept_delivered:
  assumes "line_source R view H" "lowercase (to_lowercase L)"
  shows "delivered (view (snd (accept_async_with_config R H L I C config w))) = delivered (view w)"
proof -
  let ?P = "\<lambda>w1. delivered (view w1) = delivered (view w)"
  have sink: "byte_sink R view" using assms(1) by (simp add: line_source_def)
  have "preserves ?P (parse_http_request R H (to_lowercase L))"
    using parse_http_request_frame [OF assms] by (simp add: preserves_def only_input_def)
  moreover have "preserves ?P (write_all R bs)" for bs
    using byte_sink.write_all_frame [OF sink] by (simp add: preserves_def only_output_def)
  moreover have "preserves ?P (flush H)"
    using line_source.flush_frame [OF assms(1)] by (simp add: preserves_def only_output_def)
  ultimately have "preserves ?P (accept_async_with_config R H L I C config)"
    unfolding accept_async_with_config_def parse_handshake_server_def Let_def
    by (intro preserved)
  then show ?thesis by (simp add: preserves_def)
qed

lemma accept_reader:
  assumes "accept_async_with_config R H L I C config w = (Returns (Inr (conn, rdr)), w1)"
  obtains wtr cfg dec where "rdr = new_read_stream wtr cfg dec"
  using assms
  by (auto simp: accept_async_with_config_def await_Inr_iff or_panic_def ok_def panic_def Let_def
      split: option.splits)

text \<open>Messages and at most one error, which is the last item.\<close>

definition stream_items :: "(error + message) list \<Rightarrow> bool" where
  "stream_items items \<longleftrightarrow> (\<exists>ms errs. items = map Inr ms @ map Inl errs \<and> length errs \<le> 1)"

fun acceptor_items :: "('w, 'c, 'd, 'q, 'tls) server_env \<Rightarrow> ('w, 'c) acceptor \<Rightarrow> bool" where
  "acceptor_items V (TlsAccepting u w) = (env_received V w = [])"
| "acceptor_items V (Handshaking u w) = (env_received V w = [])"
| "acceptor_items V (Announcing u wtr items ends) = stream_items items"
| "acceptor_items V acc = True"

definition items_inv :: "('w, 'c, 'd, 'q, 'tls) server_env \<Rightarrow> ('w, 'c, 'q) server \<Rightarrow> bool" where
  "items_inv V s \<longleftrightarrow> acceptor_items V (sv_acceptor s) \<and> (\<forall>c\<in>set (sv_clients s). stream_items (cl_all c))"

text \<open>The environment of a server whose runtime behaves as documented.\<close>

definition sound_env :: "('w \<Rightarrow> link) \<Rightarrow> ('q \<Rightarrow> 'c event list) \<Rightarrow> ('w, 'c, 'd, 'q, 'tls) server_env \<Rightarrow> bool" where
  "sound_env view contents V \<longleftrightarrow>
     connection (env_runtime V) view \<and> line_source (env_runtime V) view (env_lines V)
     \<and> lowercase (to_lowercase (env_library V)) \<and> fifo (env_channel V) contents
     \<and> (\<forall>w. env_received V w = delivered (view w))"

lemma shaken_items:
  assumes "sound_env view contents V" "env_received V w = []"
    and "accept_async_with_config (env_runtime V) (env_lines V) (env_library V) (env_inflater V)
       (env_deflater V) (listener_config V) w = (Returns (Inr (conn, rdr)), w1)"
    and "reader_task (env_runtime V) (env_inflater V) (rdr, w1) = (r, (rdr', w2))"
  shows "stream_items (env_received V w2)"
proof -
  from assms(1) have v: "connection (env_runtime V) view" "line_source (env_runtime V) view (env_lines V)"
    "lowercase (to_lowercase (env_library V))" "\<And>w. env_received V w = delivered (view w)"
    by (simp_all add: sound_env_def)
  obtain wtr cfg dec where rdr: "rdr = new_read_stream wtr cfg dec"
    using accept_reader [OF assms(3)] .
  have w1: "delivered (view w1) = []"
    using accept_delivered [OF v(2,3), where w = w and I = "env_inflater V" and C = "env_deflater V"
        and config = "listener_config V"] assms(2,3) v(4) by simp
  from reader_items [OF v(1) assms(4) [unfolded rdr]] obtain ms errs where
    "delivered (view w2) = delivered (view w1) @ map Inr ms @ map Inl errs" "errs = [] \<or> (\<exists>e. errs = [e])"
    by blast
  then show ?thesis
    unfolding stream_items_def v(4) w1 by (intro exI [of _ ms] exI [of _ errs]) auto
qed

lemma accept_step_items:
  assumes "accept_step V s s'" "items_inv V s" "sound_env view contents V"
  shows "items_inv V s'"
  using assms(1)
proof cases
  case (shaken u w conn rdr w1 r rdr' w2)
  with assms(2) have "env_received V w = []" by (simp add: items_inv_def)
  from shaken_items [OF assms(3) this shaken(3,4)] shaken(1) assms(2) show ?thesis
    by (simp add: items_inv_def)
qed (use assms(2) in \<open>auto simp: items_inv_def dest: send_event_SomeD\<close>)

lemma client_step_items: "client_step V i s s' \<Longrightarrow> items_inv V s \<Longrightarrow> items_inv V s'"
  by (auto elim!: client_step.cases simp: items_inv_def take_item_def set_task_def in_task_def
      dest!: send_event_frame subsetD [OF set_update_subset_insert])

lemma runs_items:
  assumes "runs V s0 s" "items_inv V s0" "sound_env view contents V"
  shows "items_inv V s"
  using assms
proof (induction rule: runs.induct)
  case (runs_step s s1 s2)
  then have i: "items_inv V s1" by blast
  from runs_step.hyps(2) show ?case
  proof cases
    case by_acceptor
    then show ?thesis using accept_step_items i runs_step.prems(2) by blast
  next
    case (by_client j)
    then show ?thesis using client_step_items i by blast
  qed (use i in \<open>simp_all add: items_inv_def\<close>)
qed

section \<open>Well-formed histories\<close>

text \<open>What a user may see of one id: nothing, one error, or a beginning of a client's story.\<close>

definition conversation :: "uuid \<Rightarrow> 'c event list \<Rightarrow> bool" where
  "conversation u evs \<longleftrightarrow>
     evs = [] \<or> (\<exists>e. evs = [Error u e])
     \<or> (\<exists>wtr ms errs gone. evs = told u wtr ms errs gone \<and> length errs \<le> 1)"

lemma take_told:
  "take (Suc k) (told u wtr ms errs gone)
   = told u wtr (take k ms) (take (k - length ms) errs) (gone \<and> length ms + length errs < k)"
  by (auto simp: told_def take_map take_Cons')

lemma conversation_prefix:
  assumes "prefix evs' evs" "conversation u evs"
  shows "conversation u evs'"
proof -
  obtain k where k: "evs' = take k evs"
    using assms(1) by (metis append_eq_conv_conj prefixE)
  from assms(2) consider "evs = []" | e where "evs = [Error u e]"
    | wtr ms errs gone where "evs = told u wtr ms errs gone" "length errs \<le> 1"
    unfolding conversation_def by blast
  then show ?thesis
  proof cases
    case (3 wtr ms errs gone)
    show ?thesis
    proof (cases k)
      case (Suc n)
      have "length (take (n - length ms) errs) \<le> 1" using 3(2) by simp
      with take_told [of n u wtr ms errs gone] 3(1) k Suc show ?thesis
        unfolding conversation_def by metis
    qed (simp add: k conversation_def)
  qed (cases k; auto simp: k conversation_def)+
qed

lemma client_inv_told:
  assumes "client_inv evs live c"
  shows "conversation (cl_id c) (filter (about (cl_id c)) evs)"
proof -
  from assms obtain wtr ms errs gone where
    "filter (about (cl_id c)) evs = told (cl_id c) wtr ms errs gone" "length errs \<le> 1"
    unfolding client_inv_def by (cases "cl_task c") auto
  then show ?thesis unfolding conversation_def by blast
qed

lemma server_inv_conversation: "server_inv s \<Longrightarrow> conversation u (filter (about u) (sv_sent s))"
  using client_inv_told [of "sv_sent s" "sv_receiving s"]
  by (cases "u \<in> cl_id ` set (sv_clients s)") (auto simp: server_inv_def, auto simp: conversation_def)

lemma stream_items_split:
  assumes "stream_items (map Inr ms @ Inl e # rest)"
  shows "rest = []"
proof -
  from assms obtain ms' errs where i: "map Inr ms @ Inl e # rest = map Inr ms' @ map Inl errs" "length errs \<le> 1"
    by (auto simp: stream_items_def)
  have "ms' = ms \<and> map Inl errs = Inl e # rest"
    using i(1)
  proof (induction ms arbitrary: ms')
    case Nil
    then show ?case by (cases ms') auto
  next
    case (Cons m ms)
    then show ?case by (cases ms'; cases errs) auto
  qed
  with i(2) show ?thesis by (cases errs) auto
qed

section \<open>A concrete server\<close>

definition sim_env :: "(sim, nat \<times> bytes, nat \<times> phase, nat \<times> (nat \<times> bytes) event list, unit) server_env" where
  "sim_env =
     \<lparr>env_runtime = sim_runtime, env_lines = sim_line_io, env_library = sim_library,
      env_inflater = stored_inflater, env_deflater = stored_deflater, env_received = mailbox,
      env_new_v8 = Uuid, env_channel = bounded_channel, 
      env_config = Some \<lparr>server_web_socket_config = Some (zip_config 200), tls_config = None\<rparr>\<rparr>"

lemma sim_sound: "sound_env sim_view snd sim_env"
  using sim.connection_axioms sim_lines.line_source_axioms sim_library.lowercase_axioms
    bounded.fifo_axioms
  by (simp add: sound_env_def sim_env_def sim_view_def)

text \<open>A run with one client that sends its messages and leaves.\<close>

definition sim_server ::
  "(sim, nat \<times> bytes) acceptor \<Rightarrow> client list \<Rightarrow> (nat \<times> bytes) event list
     \<Rightarrow> (sim, nat \<times> bytes, nat \<times> (nat \<times> bytes) event list) server" where
  "sim_server acc cs evs =
     \<lparr>sv_acceptor = acc, sv_clients = cs, sv_events = (1000, evs), sv_receiving = True,
      sv_drawn = [Uuid (replicate 16 0)], sv_sent = evs, sv_taken = []\<rparr>"

definition sim_client :: "task \<Rightarrow> (error + message) list \<Rightarrow> client" where
  "sim_client t items = \<lparr>cl_id = Uuid (replicate 16 0), cl_task = t, cl_all = map Inr sim_messages,
     cl_items = items, cl_ends = True\<rparr>"

lemma sim_send: "length evs < 1000 \<Longrightarrow>
    send_event sim_env ev (sim_server acc cs evs) = Some (sim_server acc cs (evs @ [ev]))"
  by (simp add: send_event_def sim_server_def sim_env_def bounded_channel_def)

lemma sim_message_step:
  assumes "length evs < 1000" "runs sim_env s0 (sim_server Drawing [sim_client Waiting (Inr m # items)] evs)"
  shows "runs sim_env s0 (sim_server Drawing [sim_client Waiting items]
           (evs @ [NewMessage (Uuid (replicate 16 0)) m]))"
proof -
  let ?s = "sim_server Drawing [sim_client Waiting (Inr m # items)] evs"
  let ?s1 = "sim_server Drawing [sim_client (Forwarding m) items] evs"
  have "in_task ?s 0 Waiting" by (simp add: in_task_def sim_server_def sim_client_def)
  from client_step.next_message [OF this, of m items sim_env] have "client_step sim_env 0 ?s ?s1"
    by (simp add: take_item_def sim_server_def sim_client_def)
  with assms(2) have r: "runs sim_env s0 ?s1" by (blast intro: runs_step by_client)
  have "in_task ?s1 0 (Forwarding m)" by (simp add: in_task_def sim_server_def sim_client_def)
  from client_step.forward [OF this, of sim_env] sim_send [OF assms(1)]
  have "client_step sim_env 0 ?s1 (sim_server Drawing [sim_client Waiting items]
      (evs @ [NewMessage (Uuid (replicate 16 0)) m]))"
    by (simp add: set_task_def) (simp add: sim_server_def sim_client_def)
  with r show ?thesis by (blast intro: runs_step by_client)
qed

lemma sim_leave_step:
  assumes "length evs < 1000" "runs sim_env s0 (sim_server Drawing [sim_client Waiting []] evs)"
  shows "runs sim_env s0 (sim_server Drawing [sim_client Done []] (evs @ [Disconnect (Uuid (replicate 16 0))]))"
proof -
  let ?s = "sim_server Drawing [sim_client Waiting []] evs"
  let ?s1 = "sim_server Drawing [sim_client Leaving []] evs"
  have "in_task ?s 0 Waiting" by (simp add: in_task_def sim_server_def sim_client_def)
  from client_step.next_none [OF this, of sim_env] have "client_step sim_env 0 ?s ?s1"
    by (simp add: set_task_def sim_server_def sim_client_def)
  with assms(2) have r: "runs sim_env s0 ?s1" by (blast intro: runs_step by_client)
  have "in_task ?s1 0 Leaving" by (simp add: in_task_def sim_server_def sim_client_def)
  from client_step.leave [OF this, of sim_env] sim_send [OF assms(1)]
  have "client_step sim_env 0 ?s1 (sim_server Drawing [sim_client Done []]
      (evs @ [Disconnect (Uuid (replicate 16 0))]))"
    by (simp add: set_task_def) (simp add: sim_server_def sim_client_def)
  with r show ?thesis by (blast intro: runs_step by_client)
qed

lemma sim_listener: "listener_config sim_env = Some (zip_config 200)" "\<not> uses_tls sim_env"
  by (simp_all add: listener_config_def uses_tls_def sim_env_def)

definition sim_writer :: "(nat \<times> bytes) ws_writer" where
  "sim_writer = new_ws_writer \<lparr>kind = Server\<rparr> (zip_config 200) sim_enc"

lemma sim_run:
  obtains s0 :: "(sim, nat \<times> bytes, nat \<times> (nat \<times> bytes) event list) server" where
    "start_server_with_config (\<lambda>a. Inr ()) sim_env 9000 (env_config sim_env) = Inr (sim_env, s0)"
    "runs sim_env s0 (sim_server Drawing [sim_client Done []]
       (told (Uuid (replicate 16 0)) sim_writer sim_messages [] True))"
proof -
  let ?u = "Uuid (replicate 16 0)"
  obtain bs conn rdr w1 rdr2 w2 where a: "sim_accept (sim_peer bs) = (Returns (Inr (conn, rdr)), w1)"
    "reader_task sim_runtime stored_inflater (rdr, w1) = (Returns (), (rdr2, w2))"
    "mailbox w2 = map Inr sim_messages" "conn_writer conn = sim_writer"
    by (rule sim_session [folded sim_writer_def])
  define s0 :: "(sim, nat \<times> bytes, nat \<times> (nat \<times> bytes) event list) server" where
    "s0 = \<lparr>sv_acceptor = Drawing, sv_clients = [], sv_events = (1000, []),
      sv_receiving = True, sv_drawn = [], sv_sent = [], sv_taken = []\<rparr>"
  have s0: "start_server_with_config (\<lambda>a. Inr ()) sim_env 9000 (env_config sim_env) = Inr (sim_env, s0)"
    by (simp add: start_server_with_config_def s0_def)
      (simp add: sim_env_def bounded_channel_def)
  note e0 = s0_def
  have "accept_step sim_env s0 (sim_server (Listening ?u) [] [])"
    using accept_step.draw [of s0 "replicate 16 0" ?u sim_env] by (simp add: e0 sim_server_def sim_env_def)
  then have 1: "runs sim_env s0 (sim_server (Listening ?u) [] [])"
    by (blast intro: runs_refl runs_step by_acceptor)
  have "accept_step sim_env (sim_server (Listening ?u) [] []) (sim_server (Handshaking ?u (sim_peer bs)) [] [])"
    using accept_step.accepted [of "sim_server (Listening ?u) [] []" ?u sim_env "sim_peer bs"]
    by (simp add: sim_server_def sim_listener) (simp add: sim_env_def sim_peer_def)
  with 1 have 2: "runs sim_env s0 (sim_server (Handshaking ?u (sim_peer bs)) [] [])"
    by (blast intro: runs_step by_acceptor)
  have "accept_step sim_env (sim_server (Handshaking ?u (sim_peer bs)) [] [])
      (sim_server (Announcing ?u (conn_writer conn) (map Inr sim_messages) True) [] [])"
    using accept_step.shaken [of "sim_server (Handshaking ?u (sim_peer bs)) [] []" ?u "sim_peer bs" sim_env
        conn rdr w1 "Returns ()" rdr2 w2] a
    by (simp add: sim_server_def sim_listener split_connection_def) (simp add: sim_env_def sim_accept_def)
  with 2 have 3: "runs sim_env s0 (sim_server (Announcing ?u (conn_writer conn) (map Inr sim_messages) True) [] [])"
    by (blast intro: runs_step by_acceptor)
  have "accept_step sim_env (sim_server (Announcing ?u (conn_writer conn) (map Inr sim_messages) True) [] [])
      (sim_server Drawing [sim_client Waiting (map Inr sim_messages)] [NewClient ?u (conn_writer conn)])"
    using accept_step.announce [OF _ sim_send, of "Announcing ?u (conn_writer conn) (map Inr sim_messages) True"
        "[]" "[]" ?u "conn_writer conn" "map Inr sim_messages" True]
    by (simp add: sim_server_def sim_client_def)
  with 3 have 4: "runs sim_env s0 (sim_server Drawing [sim_client Waiting (map Inr sim_messages)]
      [NewClient ?u (conn_writer conn)])"
    by (blast intro: runs_step by_acceptor)
  obtain m1 m2 where ms: "sim_messages = [m1, m2]" by (simp add: sim_messages_def)
  from sim_leave_step [OF _ sim_message_step [OF _ sim_message_step [OF _ 4 [unfolded ms list.map]]]]
  have "runs sim_env s0 (sim_server Drawing [sim_client Done []] (told ?u sim_writer sim_messages [] True))"
    by (simp add: told_def ms a(4))
  with s0 that show ?thesis by blast
qed

text \<open>The user takes all events.\<close>

definition sim_taken :: "client list \<Rightarrow> (nat \<times> bytes) event list \<Rightarrow> (nat \<times> bytes) event list
     \<Rightarrow> (sim, nat \<times> bytes, nat \<times> (nat \<times> bytes) event list) server" where
  "sim_taken cs ts evs = (sim_server Drawing cs (ts @ evs))\<lparr>sv_events := (1000, evs), sv_taken := ts\<rparr>"

lemma sim_take: "runs sim_env s0 (sim_taken cs ts evs) \<Longrightarrow> runs sim_env s0 (sim_taken cs (ts @ evs) [])"
proof (induction evs arbitrary: ts)
  case (Cons ev evs)
  have "server_step sim_env (sim_taken cs ts (ev # evs)) (sim_taken cs (ts @ [ev]) evs)"
    using poll_next [of "sim_taken cs ts (ev # evs)" sim_env ev "(1000, evs)"]
    by (simp add: sim_taken_def sim_server_def sim_env_def bounded_channel_def)
  from Cons.IH [OF runs_step [OF Cons.prems this]] show ?case by simp
qed simp

definition sim_end :: "(sim, nat \<times> bytes, nat \<times> (nat \<times> bytes) event list) server" where
  "sim_end = sim_taken [sim_client Done []] (told (Uuid (replicate 16 0)) sim_writer sim_messages [] True) []"

lemma sim_end [simp]:
  "sv_taken sim_end = told (Uuid (replicate 16 0)) sim_writer sim_messages [] True"
  "sv_sent sim_end = told (Uuid (replicate 16 0)) sim_writer sim_messages [] True"
  "sv_drawn sim_end = [Uuid (replicate 16 0)]" "sv_receiving sim_end"
  "sv_clients sim_end = [sim_client Done []]"
  by (simp_all add: sim_end_def sim_taken_def sim_server_def)

lemma sim_whole_run:
  obtains s0 :: "(sim, nat \<times> bytes, nat \<times> (nat \<times> bytes) event list) server" where
    "start_server_with_config (\<lambda>a. Inr ()) sim_env 9000 (env_config sim_env) = Inr (sim_env, s0)"
    "runs sim_env s0 sim_end"
proof -
  let ?evs = "told (Uuid (replicate 16 0)) sim_writer sim_messages [] True"
  obtain s0 :: "(sim, nat \<times> bytes, nat \<times> (nat \<times> bytes) event list) server" where
    s0: "start_server_with_config (\<lambda>a. Inr ()) sim_env 9000 (env_config sim_env) = Inr (sim_env, s0)"
    "runs sim_env s0 (sim_server Drawing [sim_client Done []] ?evs)" by (rule sim_run)
  have "sim_server Drawing [sim_client Done []] ?evs = sim_taken [sim_client Done []] [] ?evs"
    by (simp add: sim_taken_def sim_server_def)
  with s0 sim_take [of s0 "[sim_client Done []]" "[]" ?evs] that show ?thesis by (simp add: sim_end_def)
qed

section \<open>What a user of the server can rely on\<close>

lemma start_env: "start_server_with_config bind V0 port config = Inr (V, s0) \<Longrightarrow>
    env_channel V = env_channel V0 \<and> sv_events s0 = new_channel (env_channel V0) 1000
    \<and> sv_sent s0 = [] \<and> sv_taken s0 = [] \<and> sv_clients s0 = [] \<and> sv_acceptor s0 = Drawing"
  by (auto simp: start_server_with_config_def split: sum.splits)

lemma filter_prefix: "prefix xs ys \<Longrightarrow> prefix (filter P xs) (filter P ys)"
  by (auto elim!: prefixE)

lemma taken_conversations:
  assumes "fifo (env_channel V0) contents"
    and "start_server_with_config bind V0 port config = Inr (V, s0)"
    and "runs V s0 s" "distinct (sv_drawn s)"
  shows "prefix (sv_taken s) (sv_sent s) \<and> conversation u (filter (about u) (sv_taken s))"
proof -
  note s0 = start_env [OF assms(2)]
  have ch: "fifo (env_channel V) contents" using assms(1) s0 by simp
  have "sv_sent s = sv_taken s @ contents (sv_events s)"
    using runs_sent [OF assms(3) ch] s0 fifo.contents_new [OF assms(1)] by simp
  then have p: "prefix (sv_taken s) (sv_sent s)" by simp
  have "conversation u (filter (about u) (sv_sent s))"
    using server_inv_conversation [OF runs_inv [OF assms(3) start_inv [OF assms(2)] assms(4)]] .
  with p show ?thesis using conversation_prefix [OF filter_prefix] by blast
qed

text \<open>
  \<^bold>\<open>C6. The event stream tells well-formed stories\<close>: however the tasks of the
  server interleave, the user takes events in the order they were sent, and what has been taken
  about any id is nothing, a lone error (a connection that failed before it was a client), or a
  beginning of: its arrival, its messages, at most one error, its departure. Nothing about a
  client comes before its arrival or after its departure. The random ids are assumed distinct.
\<close>

theorem server_conversations:
  assumes "fifo (env_channel V0) contents"
    and "start_server_with_config bind V0 port config = Inr (V, s0)"
    and "runs V s0 s" "distinct (sv_drawn s)"
  shows "prefix (sv_taken s) (sv_sent s) \<and> conversation u (filter (about u) (sv_taken s))"
  by (rule taken_conversations [OF assms])

theorem server_conversations_witness:
  "\<exists>s0. runs sim_env s0 sim_end
     \<and> conversation (Uuid (replicate 16 0)) (filter (about (Uuid (replicate 16 0))) (sv_taken sim_end))"
proof -
  obtain s0 :: "(sim, nat \<times> bytes, nat \<times> (nat \<times> bytes) event list) server" where
    s0: "start_server_with_config (\<lambda>a. Inr ()) sim_env 9000 (env_config sim_env) = Inr (sim_env, s0)"
    "runs sim_env s0 sim_end" by (rule sim_whole_run)
  have "fifo (env_channel sim_env) snd" by (simp add: sim_env_def bounded.fifo_axioms)
  from server_conversations [OF this s0, of "Uuid (replicate 16 0)"] s0(2) show ?thesis by auto
qed

text \<open>
  \<^bold>\<open>C7. A client's whole stream reaches the user\<close>: when the task of a client has
  ended and the user still listens, the server has sent the arrival of the client, then a message
  event for every message its connection delivered, in order, then the error of the connection if
  it had one, and the departure as the last event about it. Nothing is lost, repeated or reordered.
\<close>

theorem server_tells_everything:
  assumes "sound_env view contents V"
    and "start_server_with_config bind V0 port config = Inr (V, s0)"
    and "runs V s0 s" "distinct (sv_drawn s)" "sv_receiving s"
    and "c \<in> set (sv_clients s)" "cl_task c = Done"
  shows "\<exists>wtr ms errs. cl_all c = map Inr ms @ map Inl errs \<and> length errs \<le> 1
           \<and> filter (about (cl_id c)) (sv_sent s) = told (cl_id c) wtr ms errs True"
proof -
  have "server_inv s" using runs_inv [OF assms(3) start_inv [OF assms(2)] assms(4)] .
  with assms(5-7) obtain wtr ms errs where
    t: "filter (about (cl_id c)) (sv_sent s) = told (cl_id c) wtr ms errs True" "length errs \<le> 1"
      "cl_all c = map Inr ms @ map Inl errs @ cl_items c" "errs = [] \<longrightarrow> cl_items c = []"
    by (fastforce simp: server_inv_def client_inv_def)
  have "items_inv V s0" using start_env [OF assms(2)] by (simp add: items_inv_def)
  from runs_items [OF assms(3) this assms(1)] assms(6) have "stream_items (cl_all c)"
    by (simp add: items_inv_def)
  with t(2,3,4) have "cl_items c = []"
    using stream_items_split [of ms _ "cl_items c"] by (cases errs) auto
  with t show ?thesis by auto
qed

theorem server_tells_everything_witness:
  "\<exists>s0 ms errs wtr. runs sim_env s0 sim_end \<and> map Inr sim_messages = map Inr ms @ map Inl errs
     \<and> filter (about (Uuid (replicate 16 0))) (sv_sent sim_end) = told (Uuid (replicate 16 0)) wtr ms errs True"
proof -
  obtain s0 :: "(sim, nat \<times> bytes, nat \<times> (nat \<times> bytes) event list) server" where
    s0: "start_server_with_config (\<lambda>a. Inr ()) sim_env 9000 (env_config sim_env) = Inr (sim_env, s0)"
    "runs sim_env s0 sim_end" by (rule sim_whole_run)
  from server_tells_everything [OF sim_sound s0, of "sim_client Done []"] s0(2)
  show ?thesis by (simp add: sim_client_def) blast
qed

text \<open>
  \<^bold>\<open>C34. A panic in a handshake ends the accept loop\<close>: the handshake runs inside the
  accept loop, so when it panics (as it does on a window size that zlib refuses) no connection is
  ever accepted again, while the user keeps waiting on the event stream.
\<close>

theorem server_stops_accepting:
  assumes "sv_acceptor s = Handshaking u w"
    and "accept_async_with_config (env_runtime V) (env_lines V) (env_library V) (env_inflater V)
      (env_deflater V) (listener_config V) w = (Panics, w1)"
    and "runs V s s'"
  shows "sv_acceptor s' \<in> {Handshaking u w, Crashed} \<and> map cl_id (sv_clients s') = map cl_id (sv_clients s)
     \<and> sv_drawn s' = sv_drawn s"
  using assms(3,1,2)
proof (induction rule: runs.induct)
  case (runs_step s s1 s2)
  from runs_step.hyps(2) runs_step.IH [OF runs_step.prems] runs_step.prems(2) show ?case
    by (auto elim!: server_step.cases accept_step.cases dest!: client_step_frame)
qed simp

text \<open>A server on the bounded decompressor that is shaking hands with such a client.\<close>

theorem server_stops_accepting_witness:
  "\<exists>V (s :: (sim, nat \<times> bytes, nat \<times> (nat \<times> bytes) event list) server) bs.
     sv_acceptor s = Handshaking (Uuid []) (sim_peer bs) \<and> V = sim_env\<lparr>env_inflater := bounded_inflater\<rparr>
     \<and> (\<forall>s'. runs V s s' \<longrightarrow> sv_acceptor s' \<in> {Handshaking (Uuid []) (sim_peer bs), Crashed})"
proof -
  obtain request w1 where r: "accept_async_with_config sim_runtime sim_line_io sim_library bounded_inflater
      stored_deflater (Some (zip_config 200)) (sim_peer (encode_utf8 request)) = (Panics, w1)"
    by (rule sim_panic)
  let ?V = "sim_env\<lparr>env_inflater := bounded_inflater\<rparr>"
  let ?s = "sim_server (Handshaking (Uuid []) (sim_peer (encode_utf8 request))) [] []"
  have s: "sv_acceptor ?s = Handshaking (Uuid []) (sim_peer (encode_utf8 request))"
    by (simp add: sim_server_def)
  have "accept_async_with_config (env_runtime ?V) (env_lines ?V) (env_library ?V) (env_inflater ?V)
      (env_deflater ?V) (listener_config ?V) (sim_peer (encode_utf8 request)) = (Panics, w1)"
    using r by (simp add: sim_env_def listener_config_def)
  from server_stops_accepting [OF s this] s show ?thesis by blast
qed

end
