(* ===== verification/Simple_Server.thy ===== *)
theory Simple_Server
  imports Server
begin

text \<open>
  \<open>examples/simple_server.rs\<close>: a program on top of the server. It keeps the writers of the
  clients that are there and sends every message back to its sender. Each client's connection
  has a world of its own, written by this loop.
\<close>

section \<open>The event loop\<close>

type_synonym ('c, 'w) clients = "(uuid \<rightharpoonup> 'c ws_writer) \<times> (uuid \<Rightarrow> 'w)"

text \<open>\<open>clients.get_mut(&id).unwrap()\<close>, \<open>send_message(message).await.unwrap()\<close>.\<close>

fun handle_event :: "'w runtime \<Rightarrow> 'c deflater \<Rightarrow> 'c event \<Rightarrow> (('c, 'w) clients, error, unit) async" where
  "handle_event R C (NewClient u wtr) (clients, net) = (Returns (Inr ()), (clients(u \<mapsto> wtr), net))"
| "handle_event R C (NewMessage u m) (clients, net) =
     (case clients u of
        None \<Rightarrow> (Panics, (clients, net))
      | Some wtr \<Rightarrow>
          (case send_message R C m (wtr, net u) of
             (Returns (Inr _), (wtr', w')) \<Rightarrow> (Returns (Inr ()), (clients(u \<mapsto> wtr'), net(u := w')))
           | (Returns (Inl _), (wtr', w')) \<Rightarrow> (Panics, (clients(u \<mapsto> wtr'), net(u := w')))
           | (Hangs, (wtr', w')) \<Rightarrow> (Hangs, (clients(u \<mapsto> wtr'), net(u := w')))
           | (Panics, (wtr', w')) \<Rightarrow> (Panics, (clients(u \<mapsto> wtr'), net(u := w')))))"
| "handle_event R C (Disconnect u) (clients, net) = (Returns (Inr ()), (clients(u := None), net))"
| "handle_event R C (Error u e) (clients, net) = (Returns (Inr ()), (clients, net))"

fun handle_events :: "'w runtime \<Rightarrow> 'c deflater \<Rightarrow> 'c event list \<Rightarrow> (('c, 'w) clients, error, unit) async" where
  "handle_events R C [] = ok ()"
| "handle_events R C (ev # evs) = await (handle_event R C ev) (\<lambda>_. handle_events R C evs)"

lemma handle_events_snoc:
  "handle_events R C (evs @ [ev]) s = await (handle_events R C evs) (\<lambda>_. handle_event R C ev) s"
proof (induction evs arbitrary: s)
  case Nil
  then show ?case
    by (cases "fst (handle_event R C ev s)" rule: outcome.exhaust)
      (auto simp: await_def ok_def split: sum.splits outcome.splits, (metis prod.collapse)+)
next
  case (Cons e evs)
  then show ?case by (auto simp: await_def split: sum.splits outcome.splits)
qed

lemma send_all_snoc:
  "send_all R C (ms @ [m]) s = await (send_all R C ms) (\<lambda>_. send_message R C m) s"
proof (induction ms arbitrary: s)
  case Nil
  then show ?case
    by (auto simp: await_def ok_def split: sum.splits outcome.splits, (metis prod.collapse)+)
next
  case (Cons e ms)
  then show ?case by (auto simp: await_def split: sum.splits outcome.splits)
qed

section \<open>How a client's story goes on\<close>

lemma told_snoc:
  "told u wtr ms [] False @ [NewMessage u m] = told u wtr (ms @ [m]) [] False"
  "told u wtr ms [] False @ [Error u e] = told u wtr ms [e] False"
  "told u wtr ms errs False @ [Disconnect u] = told u wtr ms errs True"
  by (simp_all add: told_def)

lemma conversation_snoc:
  assumes "conversation u (evs @ [ev])"
  shows "(\<exists>wtr. evs = [] \<and> ev = NewClient u wtr) \<or> (\<exists>e. evs = [] \<and> ev = Error u e)
    \<or> (\<exists>wtr ms m. evs = told u wtr ms [] False \<and> ev = NewMessage u m)
    \<or> (\<exists>wtr ms e. evs = told u wtr ms [] False \<and> ev = Error u e)
    \<or> (\<exists>wtr ms errs. evs = told u wtr ms errs False \<and> ev = Disconnect u)"
proof -
  from assms consider e where "evs @ [ev] = [Error u e]"
    | wtr ms errs gone where "evs @ [ev] = told u wtr ms errs gone" "length errs \<le> 1"
    by (auto simp: conversation_def)
  then show ?thesis
  proof cases
    case (2 wtr ms errs gone)
    then consider "gone" | e where "\<not> gone" "errs = [e]" | m ms' where "\<not> gone" "errs = []" "ms = ms' @ [m]"
      | "\<not> gone" "errs = []" "ms = []"
      by (cases ms rule: rev_cases; cases errs) auto
    then show ?thesis
      using 2(1) by cases (auto simp flip: told_snoc, auto simp: told_def)
  qed simp
qed

lemma told_inject: "told u (wtr :: 'c ws_writer) ms errs gone = told u wtr' ms' errs' gone' \<longleftrightarrow>
    wtr = wtr' \<and> ms = ms' \<and> errs = errs' \<and> gone = gone'"
proof -
  have e: "(map (Error u) es :: 'c event list) @ (if g then [Disconnect u] else []) = map (Error u) es' @ (if g' then [Disconnect u] else [])
      \<longleftrightarrow> es = es' \<and> g = g'" for es es' g g'
  proof (induction es arbitrary: es')
    case Nil
    then show ?case by (cases es') auto
  next
    case (Cons x es)
    then show ?case by (cases es') auto
  qed
  have "(map (NewMessage u) ms :: 'c event list) @ map (Error u) es @ (if g then [Disconnect u] else [])
      = map (NewMessage u) ms' @ map (Error u) es' @ (if g' then [Disconnect u] else [])
      \<longleftrightarrow> ms = ms' \<and> es = es' \<and> g = g'" for es es' g g'
  proof (induction ms arbitrary: ms')
    case Nil
    show ?case
    proof (cases ms')
      case Nil
      then show ?thesis using e by (simp split del: if_split)
    next
      case (Cons x xs)
      then show ?thesis by (cases es) auto
    qed
  next
    case (Cons x ms)
    then show ?case by (cases ms'; cases es') auto
  qed
  from this [of errs gone errs' gone'] show ?thesis by (simp add: told_def split del: if_split)
qed

section \<open>Every client gets its messages back\<close>

text \<open>
  The client \<open>u\<close> after some events: nothing has been sent to it before it arrived; after that its
  messages, and no others, have been sent to it in order, by the writer it arrived with.
\<close>

definition echoed :: "'w runtime \<Rightarrow> 'c deflater \<Rightarrow> 'c event list \<Rightarrow> 'w \<Rightarrow> uuid
     \<Rightarrow> 'c ws_writer option \<Rightarrow> 'w \<Rightarrow> bool" where
  "echoed R C evs w u c w' \<longleftrightarrow>
     (filter (about u) evs = [] \<or> (\<exists>e. filter (about u) evs = [Error u e])) \<and> c = None \<and> w' = w
     \<or> (\<exists>wtr ms errs gone wtr'. filter (about u) evs = told u wtr ms errs gone
          \<and> send_all R C ms (wtr, w) = (Returns (Inr ()), (wtr', w')) \<and> c = (if gone then None else Some wtr'))"

text \<open>No send fails.\<close>

definition serves :: "'w runtime \<Rightarrow> 'c deflater \<Rightarrow> (uuid \<Rightarrow> 'w) \<Rightarrow> 'c event list \<Rightarrow> bool" where
  "serves R C net evs \<longleftrightarrow> (\<forall>u wtr ms errs gone. filter (about u) evs = told u wtr ms errs gone
     \<longrightarrow> fst (send_all R C ms (wtr, net u)) = Returns (Inr ()))"

lemma servesD: "serves R C net evs \<Longrightarrow> filter (about u) evs = told u wtr ms errs gone \<Longrightarrow>
    fst (send_all R C ms (wtr, net u)) = Returns (Inr ())"
  unfolding serves_def by blast

lemma serves_snocD:
  assumes "serves R C net (evs @ [ev])" "\<And>u. conversation u (filter (about u) (evs @ [ev]))"
  shows "serves R C net evs"
  unfolding serves_def
proof (intro allI impI)
  fix u wtr ms errs gone
  assume t: "filter (about u) evs = told u wtr ms errs gone"
  show "fst (send_all R C ms (wtr, net u)) = Returns (Inr ())"
  proof (cases "about u ev")
    case False
    with t have "filter (about u) (evs @ [ev]) = told u wtr ms errs gone" by simp
    from servesD [OF assms(1) this] show ?thesis .
  next
    case True
    with t assms(2) [of u] have "conversation u (told u wtr ms errs gone @ [ev])" by simp
    from conversation_snoc [OF this] consider
      m where "errs = []" "\<not> gone" "ev = NewMessage u m" | e where "errs = []" "\<not> gone" "ev = Error u e"
      | "\<not> gone" "ev = Disconnect u"
      by (auto simp: told_inject, auto simp: told_def)
    then show ?thesis
    proof cases
      case (1 m)
      with t True have "filter (about u) (evs @ [ev]) = told u wtr (ms @ [m]) [] False"
        by (simp add: told_snoc)
      from servesD [OF assms(1) this] have "fst (send_all R C (ms @ [m]) (wtr, net u)) = Returns (Inr ())" .
      then show ?thesis
        by (auto simp: send_all_snoc await_def split: outcome.splits sum.splits)
    next
      case (2 e)
      with t True have "filter (about u) (evs @ [ev]) = told u wtr ms [e] False" by (simp add: told_snoc)
      from servesD [OF assms(1) this] show ?thesis .
    next
      case 3
      with t True have "filter (about u) (evs @ [ev]) = told u wtr ms errs True" by (simp add: told_snoc)
      from servesD [OF assms(1) this] show ?thesis .
    qed
  qed
qed

lemma echoed_other: "\<not> about u ev \<Longrightarrow> echoed R C (evs @ [ev]) w u c w' \<longleftrightarrow> echoed R C evs w u c w'"
  by (simp add: echoed_def)

lemma echo_step:
  assumes e: "\<And>v. echoed R C evs (net0 v) v (clients v) (net v)" and u: "about u ev"
    and c: "conversation u (filter (about u) (evs @ [ev]))" and s: "serves R C net0 (evs @ [ev])"
  obtains clients' net' where "handle_event R C ev (clients, net) = (Returns (Inr ()), (clients', net'))"
    "\<And>v. v \<noteq> u \<Longrightarrow> clients' v = clients v \<and> net' v = net v"
    "echoed R C (evs @ [ev]) (net0 u) u (clients' u) (net' u)"
proof -
  have c': "conversation u (filter (about u) evs @ [ev])" using c u by simp
  from conversation_snoc [OF c'] consider
    wtr where "filter (about u) evs = []" "ev = NewClient u wtr" | e where "filter (about u) evs = []" "ev = Error u e"
    | wtr ms m where "filter (about u) evs = told u wtr ms [] False" "ev = NewMessage u m"
    | wtr ms e where "filter (about u) evs = told u wtr ms [] False" "ev = Error u e"
    | wtr ms errs where "filter (about u) evs = told u wtr ms errs False" "ev = Disconnect u"
    by blast
  then show thesis
  proof cases
    case (1 wtr)
    with e [of u] have "net u = net0 u" by (auto simp: echoed_def, auto simp: told_def)
    with 1 show thesis
      by (intro that [of "clients(u \<mapsto> wtr)" net])
        (auto simp: echoed_def ok_def told_def intro!: exI [of _ wtr] exI [of _ "[]"] exI [of _ False])
  next
    case (2 e1)
    with e [of u] show thesis
      by (intro that [of clients net]) (auto simp: echoed_def, auto simp: told_def)
  next
    case (3 wtr ms m)
    with e [of u] obtain wtr' where a: "send_all R C ms (wtr, net0 u) = (Returns (Inr ()), (wtr', net u))"
      "clients u = Some wtr'" by (auto simp: echoed_def told_inject, auto simp: told_def)
    have t: "filter (about u) (evs @ [ev]) = told u wtr (ms @ [m]) [] False"
      using 3 by (simp add: told_snoc)
    from servesD [OF s this] have "fst (send_all R C (ms @ [m]) (wtr, net0 u)) = Returns (Inr ())" .
    then have "fst (send_message R C m (wtr', net u)) = Returns (Inr ())"
      by (simp add: send_all_snoc run a)
    then obtain wtr2 w2 where m: "send_message R C m (wtr', net u) = (Returns (Inr ()), (wtr2, w2))"
      by (metis prod.collapse)
    then have "send_all R C (ms @ [m]) (wtr, net0 u) = (Returns (Inr ()), (wtr2, w2))"
      by (simp add: send_all_snoc run a)
    with t show thesis
      by (intro that [of "clients(u \<mapsto> wtr2)" "net(u := w2)"]) (simp_all add: 3(2) a m, auto simp: echoed_def)
  next
    case (4 wtr ms e1)
    with e [of u] obtain wtr' where a: "send_all R C ms (wtr, net0 u) = (Returns (Inr ()), (wtr', net u))"
      "clients u = Some wtr'" by (auto simp: echoed_def told_inject, auto simp: told_def)
    have "filter (about u) (evs @ [ev]) = told u wtr ms [e1] False" using 4 by (simp add: told_snoc)
    with a 4 show thesis by (intro that [of clients net]) (simp, simp, auto simp: echoed_def)
  next
    case (5 wtr ms errs)
    with e [of u] obtain wtr' where a: "send_all R C ms (wtr, net0 u) = (Returns (Inr ()), (wtr', net u))"
      by (auto simp: echoed_def told_inject, auto simp: told_def)
    have "filter (about u) (evs @ [ev]) = told u wtr ms errs True" using 5 by (simp add: told_snoc)
    with a 5 show thesis by (intro that [of "clients(u := None)" net]) (simp, simp, simp add: echoed_def told_inject, blast)
  qed
qed

lemma handle_events_echo:
  assumes "\<And>u. conversation u (filter (about u) evs)" "serves R C net0 evs"
  shows "\<exists>clients net. handle_events R C evs (Map.empty, net0) = (Returns (Inr ()), (clients, net))
    \<and> (\<forall>u. echoed R C evs (net0 u) u (clients u) (net u))"
  using assms
proof (induction evs rule: rev_induct)
  case Nil
  then show ?case by (simp add: ok_def echoed_def)
next
  case (snoc ev evs)
  have c: "conversation u (filter (about u) evs)" for u
    using conversation_prefix [OF filter_prefix snoc.prems(1)] by (metis prefixI)
  from snoc.IH [OF c serves_snocD [OF snoc.prems(2,1)]] obtain clients net where
    i: "handle_events R C evs (Map.empty, net0) = (Returns (Inr ()), (clients, net))"
      "\<And>u. echoed R C evs (net0 u) u (clients u) (net u)" by blast
  obtain u where u: "about u ev" by (cases ev) auto
  obtain clients' net' where
    s: "handle_event R C ev (clients, net) = (Returns (Inr ()), (clients', net'))"
      "\<And>v. v \<noteq> u \<Longrightarrow> clients' v = clients v \<and> net' v = net v"
      "echoed R C (evs @ [ev]) (net0 u) u (clients' u) (net' u)"
    by (rule echo_step [OF i(2) u snoc.prems(1) snoc.prems(2)]) blast
  have "echoed R C (evs @ [ev]) (net0 v) v (clients' v) (net' v)" for v
  proof (cases "v = u")
    case False
    with u have "\<not> about v ev" using about_unique by metis
    with i(2) [of v] s(2) [OF False] show ?thesis by (simp add: echoed_other)
  qed (use s(3) in simp)
  with i(1) s(1) show ?case by (simp add: handle_events_snoc run)
qed

section \<open>Properties\<close>

text \<open>
  \<^bold>\<open>C8. The example server serves every client\<close>: however the tasks of the
  server interleave, as long as no send fails the loop handles all events without a panic (the
  client of a message is always in its map), sends every client exactly its own messages in
  order, and forgets it when it leaves.
\<close>

theorem simple_server_echoes:
  assumes "fifo (env_channel V0) contents"
    and "start_server_with_config bind V0 port config = Inr (V, s0)"
    and "runs V s0 s" "distinct (sv_drawn s)" "serves R C net0 (sv_taken s)"
  shows "\<exists>clients net. handle_events R C (sv_taken s) (Map.empty, net0) = (Returns (Inr ()), (clients, net))
    \<and> (\<forall>u. echoed R C (sv_taken s) (net0 u) u (clients u) (net u))"
  using taken_conversations [OF assms(1) assms(2) assms(3,4)] assms(5)
  by (intro handle_events_echo) simp_all

lemma sim_echo: "fst (send_all sim_runtime stored_deflater sim_messages (sim_writer, sim_peer [])) = Returns (Inr ())"
proof -
  let ?rdr = "new_read_stream \<lparr>kind = Client\<rparr> (zip_config 2000) sim_dec"
  have p: "paired stored_synced sim_writer ?rdr" "compression_fits stored_deflater stored_synced sim_writer ?rdr"
    using sim_synced
    by (auto simp: paired_def compression_fits_def sim_writer_def zip_defs dest!: stored_compress)
  have m: "\<forall>m\<in>set sim_messages. sendable (sw_config sim_writer) m"
    by (simp add: sim_messages_def sendable_def sim_writer_def zip_defs message_ok_def
        valid_string_def is_scalar_def as_binary_def encode_utf8_def encode_char_def)
  from messages_step [OF sim_sink.byte_sink_axioms sim.connection_axioms stored.message_codec_axioms p m
      sim_peer_view(4) [of "[]"]] show ?thesis by auto
qed

theorem simple_server_echoes_witness:
  "\<exists>clients net wtr w. handle_events sim_runtime stored_deflater (sv_taken sim_end) (Map.empty, \<lambda>u. sim_peer [])
       = (Returns (Inr ()), (clients, net))
     \<and> send_all sim_runtime stored_deflater sim_messages (sim_writer, sim_peer [])
       = (Returns (Inr ()), (wtr, net (Uuid (replicate 16 0))))"
proof -
  let ?u = "Uuid (replicate 16 0)"
  obtain s0 :: "(sim, nat \<times> bytes, nat \<times> (nat \<times> bytes) event list) server" where
    s0: "start_server_with_config (\<lambda>a. Inr ()) sim_env 9000 (env_config sim_env) = Inr (sim_env, s0)"
    "runs sim_env s0 sim_end" by (rule sim_whole_run)
  have ch: "fifo (env_channel sim_env) snd" by (simp add: sim_env_def bounded.fifo_axioms)
  have own: "filter (about ?u) (sv_taken sim_end) = sv_taken sim_end"
    "\<And>v. v \<noteq> ?u \<Longrightarrow> filter (about v) (sv_taken sim_end) = []"
    by (auto simp: told_def filter_id_conv filter_empty_conv)
  have "serves sim_runtime stored_deflater (\<lambda>u. sim_peer []) (sv_taken sim_end)"
    unfolding serves_def
  proof (intro allI impI)
    fix u wtr ms errs gone
    assume t: "filter (about u) (sv_taken sim_end) = told u wtr ms errs gone"
    then have "u = ?u" using own(2) [of u] by (cases "u = ?u") (auto simp: told_def)
    with t own(1) show "fst (send_all sim_runtime stored_deflater ms (wtr, sim_peer [])) = Returns (Inr ())"
      using sim_echo by (simp add: told_inject)
  qed
  from simple_server_echoes [OF ch s0 _ this] obtain clients net where
    e: "handle_events sim_runtime stored_deflater (sv_taken sim_end) (Map.empty, \<lambda>u. sim_peer [])
       = (Returns (Inr ()), (clients, net))"
      "echoed sim_runtime stored_deflater (sv_taken sim_end) (sim_peer []) ?u (clients ?u) (net ?u)" by auto
  from e(2) obtain wtr where "send_all sim_runtime stored_deflater sim_messages (sim_writer, sim_peer [])
      = (Returns (Inr ()), (wtr, net ?u))"
    unfolding echoed_def own by (auto simp: told_inject, auto simp: told_def)
  with e(1) show ?thesis by blast
qed

end
