(* ===== verification/Programs.thy ===== *)
theory Programs
  imports Echo Simple_Server
begin

text \<open>
  The \<open>main\<close> functions of the example servers, plain and over TLS, the client examples from the
  handshake to the end, and \<open>benchmarking/load_generator.rs\<close>. Files, the PEM parsers, rustls and
  the listening socket are parameters.
\<close>

section \<open>Accept loops (echo_server.rs, autobahn_server.rs)\<close>

text \<open>
  The second argument is what \<open>listener.accept().await\<close> gives, call after call; after that it
  waits. The result is how \<open>main\<close> ends and the tasks it has spawned, which run by themselves.
\<close>

fun accept_loop :: "('k \<Rightarrow> 'r) \<Rightarrow> (io_error + 'k) list \<Rightarrow> 'r list \<Rightarrow> unit outcome \<times> 'r list" where
  "accept_loop task [] tasks = (Hangs, tasks)"
| "accept_loop task (Inr stream # accepts) tasks = accept_loop task accepts (tasks @ [task stream])"
| "accept_loop task (Inl _ # accepts) tasks = (Returns (), tasks)"

definition echo_server_main ::
  "'w runtime \<Rightarrow> 'w line_io \<Rightarrow> library \<Rightarrow> 'd inflater \<Rightarrow> 'c deflater \<Rightarrow> 'w receiving
     \<Rightarrow> (rstring \<Rightarrow> io_error + unit) \<Rightarrow> (io_error + 'w) list \<Rightarrow> unit outcome \<times> (unit outcome \<times> 'w) option list" where
  "echo_server_main R H L I C poll bind accepts =
     (case bind (lit ''0.0.0.0:9002'') of
        Inl _ \<Rightarrow> (Panics, [])
      | Inr _ \<Rightarrow> accept_loop (handle_connection R H L I C poll) accepts [])"

definition autobahn_server_main ::
  "'w runtime \<Rightarrow> 'w line_io \<Rightarrow> library \<Rightarrow> 'd inflater \<Rightarrow> 'c deflater \<Rightarrow> 'w receiving
     \<Rightarrow> (rstring \<Rightarrow> io_error + unit) \<Rightarrow> (io_error + 'w) list \<Rightarrow> unit outcome \<times> (unit outcome \<times> 'w) option list" where
  "autobahn_server_main R H L I C poll bind accepts =
     (case bind (lit ''127.0.0.1:9002'') of
        Inl _ \<Rightarrow> (Panics, [])
      | Inr _ \<Rightarrow> accept_loop (autobahn_handle_connection R H L I C poll) accepts [])"

text \<open>Every stream accepted before the first error gets a task of its own, whatever the others do.\<close>

lemma accept_loop_spawns:
  "accept_loop task accepts tasks =
     (if \<exists>e. Inl e \<in> set accepts then Returns () else Hangs,
      tasks @ map (task \<circ> projr) (takeWhile (\<lambda>a. \<not> isl a) accepts))"
  by (induction task accepts tasks rule: accept_loop.induct) auto

section \<open>Certificates and keys (echo_server_tls.rs, simple_server_tls.rs)\<close>

text \<open>
  \<open>File::open\<close>, \<open>rustls_pemfile::certs\<close> (collected), \<open>rustls_pemfile::private_key\<close> and
  \<open>ServerConfig::builder()...with_single_cert\<close>.
\<close>

record ('file, 'cert, 'key, 'tls) tls_library =
  open_file :: "rstring \<Rightarrow> io_error + 'file"
  read_certs :: "'file \<Rightarrow> io_error + 'cert list"
  private_key :: "'file \<Rightarrow> io_error + 'key option"
  with_single_cert :: "'cert list \<Rightarrow> 'key \<Rightarrow> unit + 'tls"

definition load_certs :: "('file, 'cert, 'key, 'tls) tls_library \<Rightarrow> rstring \<Rightarrow> io_error + 'cert list" where
  "load_certs T path = (case open_file T path of Inl e \<Rightarrow> Inl e | Inr file \<Rightarrow> read_certs T file)"

definition load_key :: "('file, 'cert, 'key, 'tls) tls_library \<Rightarrow> rstring \<Rightarrow> (io_error + 'key) outcome" where
  "load_key T path =
     (case open_file T path of
        Inl e \<Rightarrow> Returns (Inl e)
      | Inr file \<Rightarrow>
          (case private_key T file of
             Inl _ \<Rightarrow> Panics
           | Inr None \<Rightarrow> Returns (Inl Other)
           | Inr (Some key) \<Rightarrow> Returns (Inr key)))"

text \<open>What both \<open>main\<close> functions do first.\<close>

definition server_tls_config :: "('file, 'cert, 'key, 'tls) tls_library \<Rightarrow> ('s, io_error, 'tls) async" where
  "server_tls_config T =
     await (of_result (load_certs T (lit ''cert.pem''))) (\<lambda>certs.
     await (\<lambda>s. (load_key T (lit ''key.pem''), s)) (\<lambda>key.
     of_result (case with_single_cert T certs key of Inl _ \<Rightarrow> Inl InvalidInput | Inr config \<Rightarrow> Inr config)))"

text \<open>A key file that cannot be parsed panics, although \<open>main\<close> returns the other errors.\<close>

lemma load_key_panics: "load_key T path = Panics \<longleftrightarrow> (\<exists>file e. open_file T path = Inr file \<and> private_key T file = Inl e)"
  by (auto simp: load_key_def split: sum.splits option.splits)

section \<open>echo_server_tls.rs\<close>

text \<open>\<open>acceptor.accept(stream).await\<close> is awaited in the loop itself.\<close>

fun tls_accept_loop ::
  "('k \<Rightarrow> (io_error + 't) outcome) \<Rightarrow> ('t \<Rightarrow> 'r) \<Rightarrow> (io_error + 'k) list \<Rightarrow> 'r list \<Rightarrow> unit outcome \<times> 'r list" where
  "tls_accept_loop accept task [] tasks = (Hangs, tasks)"
| "tls_accept_loop accept task (Inr stream # accepts) tasks =
     (case accept stream of
        Returns (Inr tls_stream) \<Rightarrow> tls_accept_loop accept task accepts (tasks @ [task tls_stream])
      | Returns (Inl _) \<Rightarrow> tls_accept_loop accept task accepts tasks
      | Hangs \<Rightarrow> (Hangs, tasks)
      | Panics \<Rightarrow> (Panics, tasks))"
| "tls_accept_loop accept task (Inl _ # accepts) tasks = (Returns (), tasks)"

definition echo_server_tls_main ::
  "'w runtime \<Rightarrow> 'w line_io \<Rightarrow> library \<Rightarrow> 'd inflater \<Rightarrow> 'c deflater \<Rightarrow> 'w receiving
     \<Rightarrow> ('file, 'cert, 'key, 'tls) tls_library \<Rightarrow> (rstring \<Rightarrow> io_error + 'addr list) \<Rightarrow> ('addr \<Rightarrow> io_error + unit)
     \<Rightarrow> ('tls \<Rightarrow> 'k \<Rightarrow> (io_error + 'w) outcome) \<Rightarrow> (io_error + 'k) list
     \<Rightarrow> ((unit outcome \<times> 'w) option list, io_error, unit) async" where
  "echo_server_tls_main R H L I C poll T resolve bind accept accepts =
     await (of_result (resolve (lit ''127.0.0.1:9002''))) (\<lambda>addrs.
     await (of_result (case addrs of addr # _ \<Rightarrow> Inr addr | [] \<Rightarrow> Inl AddrNotAvailable)) (\<lambda>addr.
     await (server_tls_config T) (\<lambda>config.
     await (of_result (bind addr)) (\<lambda>_ tasks.
       map_prod (map_outcome Inr) id
         (tls_accept_loop (accept config) (handle_connection R H L I C poll) accepts tasks)))))"

text \<open>
  A peer whose TLS handshake fails is skipped; one that stays silent keeps every later peer out.
\<close>

lemma failed_peer_skipped:
  "accept stream = Returns (Inl e) \<Longrightarrow>
     tls_accept_loop accept task (accepts @ Inr stream # more_accepts) tasks
   = tls_accept_loop accept task (accepts @ more_accepts) tasks"
  by (induction accept task accepts tasks rule: tls_accept_loop.induct) (auto split: outcome.splits sum.splits)

lemma silent_peer_blocks:
  "accept stream = Hangs \<Longrightarrow>
     tls_accept_loop accept task (accepts @ Inr stream # more_accepts) tasks
   = tls_accept_loop accept task (accepts @ [Inr stream]) tasks"
  by (induction accept task accepts tasks rule: tls_accept_loop.induct) (auto split: outcome.splits sum.splits)

lemma tls_accept_loop_plain:
  "(\<And>stream. accept stream = Returns (Inr (wrap stream))) \<Longrightarrow>
     tls_accept_loop accept task accepts tasks = accept_loop (task \<circ> wrap) accepts tasks"
  by (induction accept task accepts tasks rule: tls_accept_loop.induct) auto

section \<open>The start of simple_server.rs and simple_server_tls.rs\<close>

text \<open>Both go on with the events of the stream, \<open>handle_events\<close>, if the server has started.\<close>

definition simple_server_start ::
  "(rstring \<Rightarrow> io_error + unit) \<Rightarrow> ('w, 'c, 'd, 'q, 'tls) server_env
     \<Rightarrow> io_error + ('w, 'c, 'd, 'q, 'tls) server_env \<times> ('w, 'c, 'q) server" where
  "simple_server_start bind V = (let port = 8080 in start_server bind V port)"

text \<open>The argument \<open>port\<close> is only logged.\<close>

definition run_server ::
  "(rstring \<Rightarrow> io_error + unit) \<Rightarrow> ('w, 'c, 'd, 'q, 'tls) server_env \<Rightarrow> nat \<Rightarrow> 'tls
     \<Rightarrow> io_error + ('w, 'c, 'd, 'q, 'tls) server_env \<times> ('w, 'c, 'q) server" where
  "run_server bind V port config =
     start_server_with_config bind V 8080 (Some (default_server_config\<lparr>tls_config := Some config\<rparr>))"

definition simple_server_tls_main ::
  "('file, 'cert, 'key, 'tls) tls_library \<Rightarrow> (rstring \<Rightarrow> io_error + unit) \<Rightarrow> ('w, 'c, 'd, 'q, 'tls) server_env
     \<Rightarrow> ('s, io_error, io_error + ('w, 'c, 'd, 'q, 'tls) server_env \<times> ('w, 'c, 'q) server) async" where
  "simple_server_tls_main T bind V =
     await (server_tls_config T) (\<lambda>config. let port = 8080 in ok (run_server bind V port config))"

lemma run_server_uses_tls: "run_server bind V port config = Inr (V', s) \<Longrightarrow> uses_tls V' \<and> listener_config V' = None"
  by (auto simp: run_server_def start_server_with_config_def uses_tls_def listener_config_def
      default_server_config_def unwrap_or_def split: sum.splits)

lemma simple_server_start_no_tls: "simple_server_start bind V = Inr (V', s) \<Longrightarrow> \<not> uses_tls V' \<and> listener_config V' = None"
  by (auto simp: simple_server_start_def start_server_def start_server_with_config_def uses_tls_def
      listener_config_def default_server_config_def unwrap_or_def split: sum.splits)

section \<open>The clients from the handshake to the end\<close>

text \<open>\<open>match connect_async(addr).await\<close>; a handshake that fails is logged.\<close>

definition connected ::
  "('c ws_connection \<times> 'w \<Rightarrow> (unit outcome \<times> ('c ws_connection \<times> 'w)) option)
     \<Rightarrow> (error + 'c ws_connection \<times> 'd read_stream) outcome \<times> 'w \<Rightarrow> (unit outcome \<times> 'w) option" where
  "connected body shaken =
     (case shaken of
        (Returns (Inr (conn, rdr)), w) \<Rightarrow> map_option (map_prod id snd) (body (conn, w))
      | (Returns (Inl e), w) \<Rightarrow> Some (Returns (), w)
      | (Hangs, w) \<Rightarrow> Some (Hangs, w)
      | (Panics, w) \<Rightarrow> Some (Panics, w))"

lemma serve_connected: "serve R C poll = connected (echo_loop R C poll)"
  by (rule ext) (simp add: serve_def connected_def)

definition crypto_handle_connection ::
  "bool \<Rightarrow> 'w runtime \<Rightarrow> 'w line_io \<Rightarrow> library \<Rightarrow> ('w, 'cert, 'store, 'name) network \<Rightarrow> 'd inflater
     \<Rightarrow> 'c deflater \<Rightarrow> 'w receiving \<Rightarrow> rstring \<Rightarrow> 'w \<Rightarrow> (unit outcome \<times> 'w) option" where
  "crypto_handle_connection info R H L N I C poll addr w =
     connected (log_loop info poll) (connect_async R H L N I C addr w)"

definition continue_handle_connection ::
  "'w runtime \<Rightarrow> 'w line_io \<Rightarrow> library \<Rightarrow> ('w, 'cert, 'store, 'name) network \<Rightarrow> 'd inflater
     \<Rightarrow> 'c deflater \<Rightarrow> rstring \<Rightarrow> rstring \<Rightarrow> 'w \<Rightarrow> (unit outcome \<times> 'w) option" where
  "continue_handle_connection R H L N I C my_random_string addr w =
     connected (\<lambda>s. Some (continue_session R C my_random_string s)) (connect_async R H L N I C addr w)"

text \<open>\<open>client.rs\<close> and \<open>client_tls.rs\<close>: a state of the loop that the program can reach.\<close>

definition client_reaches ::
  "bool \<Rightarrow> 'w runtime \<Rightarrow> 'c deflater \<Rightarrow> 'w receiving
     \<Rightarrow> (error + 'c ws_connection \<times> 'd read_stream) outcome \<times> 'w \<Rightarrow> ('c, 'w) ticking \<Rightarrow> bool" where
  "client_reaches info R C poll shaken t \<longleftrightarrow>
     (\<exists>conn rdr w. shaken = (Returns (Inr (conn, rdr)), w)
        \<and> (ticking_step info R C poll)\<^sup>*\<^sup>* (ticking_start (conn, w)) t)"

lemma client_counts:
  assumes "client_reaches info R C poll shaken t"
  shows "tk_counter t \<le> 3 \<and> (tk_progress t = Running \<longrightarrow> tk_counter t < 3)"
proof -
  from assms obtain s where "(ticking_step info R C poll)\<^sup>*\<^sup>* (ticking_start s) t" by (auto simp: client_reaches_def)
  then show ?thesis
  proof (induction rule: rtranclp_induct)
    case base
    then show ?case by (simp add: ticking_start_def)
  next
    case (step t1 t2)
    from step.hyps(2) have "tk_progress t1 = Running" by (auto elim: ticking_cases)
    with step.IH ticking_counter [OF step.hyps(2)] show ?case by simp
  qed
qed

section \<open>load\_generator.rs\<close>

text \<open>
  The loop of one worker on the two halves of its connection: \<open>send\<close> and \<open>next\<close> are unwrapped,
  but an item that is an error counts like a message.
\<close>

fun load_loop ::
  "'w runtime \<Rightarrow> 'c deflater \<Rightarrow> 'w receiving \<Rightarrow> bytes \<Rightarrow> ws_reader \<Rightarrow> nat \<Rightarrow> 'c ws_writer \<times> 'w
     \<Rightarrow> unit outcome \<times> ('c ws_writer \<times> 'w)" where
  "load_loop R C poll data read 0 s = (Returns (), s)"
| "load_loop R C poll data read (Suc n) s =
     (case send R C data s of
        (Returns (Inr _), (wtr, w)) \<Rightarrow>
          (case reader_poll_next poll read w of
             (Returns (Some _), w') \<Rightarrow> load_loop R C poll data read n (wtr, w')
           | (Returns None, w') \<Rightarrow> (Panics, (wtr, w'))
           | (Hangs, w') \<Rightarrow> (Hangs, (wtr, w'))
           | (Panics, w') \<Rightarrow> (Panics, (wtr, w')))
      | (Returns (Inl _), s') \<Rightarrow> (Panics, s')
      | (Hangs, s') \<Rightarrow> (Hangs, s')
      | (Panics, s') \<Rightarrow> (Panics, s'))"

text \<open>\<open>now\<close> is the clock of the world in nanoseconds; the result is \<open>start.elapsed()\<close>.\<close>

definition load_worker ::
  "'w runtime \<Rightarrow> 'w line_io \<Rightarrow> library \<Rightarrow> ('w, 'cert, 'store, 'name) network \<Rightarrow> 'd inflater \<Rightarrow> 'c deflater
     \<Rightarrow> 'w receiving \<Rightarrow> ('w \<Rightarrow> nat) \<Rightarrow> 'w \<Rightarrow> nat outcome \<times> 'w" where
  "load_worker R H L N I C poll now w =
     (case expect (connect_async R H L N I C (lit ''ws://127.0.0.1:9002'') w) of
        (Returns (conn, rdr), w1) \<Rightarrow>
          (case split_connection conn of (read, wtr) \<Rightarrow>
             (case load_loop R C poll (replicate 16384 97) read 1000 (wtr, w1) of
                (Returns _, (wtr', w2)) \<Rightarrow> (Returns (now w2 - now w1), w2)
              | (Hangs, (wtr', w2)) \<Rightarrow> (Hangs, w2)
              | (Panics, (wtr', w2)) \<Rightarrow> (Panics, w2)))
      | (Hangs, w1) \<Rightarrow> (Hangs, w1)
      | (Panics, w1) \<Rightarrow> (Panics, w1))"

text \<open>
  \<open>main\<close> adds up the durations until every sender is dropped, so it waits for a worker that hangs,
  and a worker that panics sends nothing.
\<close>

definition load_average :: "nat \<Rightarrow> nat \<Rightarrow> nat outcome list \<Rightarrow> nat outcome" where
  "load_average connection_count message_count workers =
     (if Hangs \<in> set workers then Hangs
      else let total_duration = sum_list [d. Returns d \<leftarrow> workers] in
           Returns (total_duration div (connection_count * message_count)))"

definition load_generator_main ::
  "'w runtime \<Rightarrow> 'w line_io \<Rightarrow> library \<Rightarrow> ('w, 'cert, 'store, 'name) network \<Rightarrow> 'd inflater \<Rightarrow> 'c deflater
     \<Rightarrow> 'w receiving \<Rightarrow> ('w \<Rightarrow> nat) \<Rightarrow> (nat \<Rightarrow> 'w) \<Rightarrow> nat outcome" where
  "load_generator_main R H L N I C poll now worlds =
     load_average 100 1000 (map (\<lambda>i. fst (load_worker R H L N I C poll now (worlds i))) [0..<100])"

text \<open>The average is that of a worker's messages only when none has panicked.\<close>

lemma load_average_bound:
  assumes "length workers = k" "0 < k" "0 < n" "\<forall>r\<in>set workers. r = Panics \<or> (\<exists>d\<le>n * t. r = Returns d)"
  shows "\<exists>a\<le>t. load_average k n workers = Returns a"
proof -
  have "sum_list [d. Returns d \<leftarrow> rs] \<le> length rs * (n * t)"
    if "\<forall>r\<in>set rs. r = Panics \<or> (\<exists>d\<le>n * t. r = Returns d)" for rs :: "nat outcome list"
    using that by (induction rs) (auto simp: add_mono le_SucI trans_le_add2)
  from this [OF assms(4)] assms(1) have "sum_list [d. Returns d \<leftarrow> workers] \<le> (k * n) * t" by (simp add: mult.assoc)
  then have "sum_list [d. Returns d \<leftarrow> workers] div (k * n) \<le> t"
    using assms(2,3) by (metis div_le_mono nonzero_mult_div_cancel_left mult_is_0 neq0_conv)
  moreover have "Hangs \<notin> set workers" using assms(4) by auto
  ultimately show ?thesis by (simp add: load_average_def Let_def)
qed

lemma load_average_panic: "load_average k n (Panics # workers) = load_average k n workers"
  by (simp add: load_average_def)

end
